theory Spec2Isabelle
  imports Main "HOL-Library.AList"
begin

section \<open>JSON values and Python dictionaries\<close>

text \<open>
  The catalog file \<^verbatim>\<open>games.json\<close> is read with \<^verbatim>\<open>json.load\<close> and written with
  \<^verbatim>\<open>json.dump\<close>. A field value of a game object is a JSON scalar: \<^verbatim>\<open>null\<close> (Python
  \<^verbatim>\<open>None\<close>), a boolean, an integer or a string. Strings are byte strings (the UTF-8
  encoding the file is opened with). Non-integer numbers and nested arrays or objects as
  field values are not produced by any writer of the program and are not modelled.
\<close>

datatype json = JNull | JBool bool | JInt int | JStr string

text \<open>
  A game is a Python \<^verbatim>\<open>dict\<close>: an association list with distinct keys, in insertion
  order. \<^verbatim>\<open>d.get(k, default)\<close> is \<open>dict_get\<close>; the assignment \<^verbatim>\<open>d[k] = v\<close> is
  \<open>dict_set\<close>, which overwrites the value in place when the key is there and appends the
  pair otherwise.
\<close>

type_synonym game = "(string \<times> json) list"

definition dict_get :: "game \<Rightarrow> string \<Rightarrow> json \<Rightarrow> json" where
  "dict_get d k dflt = (case map_of d k of None \<Rightarrow> dflt | Some v \<Rightarrow> v)"

definition dict_set :: "string \<Rightarrow> json \<Rightarrow> game \<Rightarrow> game" where
  "dict_set k v d = AList.update k v d"

text \<open>Python truth value testing, as used by \<^verbatim>\<open>if x:\<close> and \<^verbatim>\<open>not x\<close>.\<close>

fun truthy :: "json \<Rightarrow> bool" where
  "truthy JNull = False"
| "truthy (JBool b) = b"
| "truthy (JInt n) = (n \<noteq> 0)"
| "truthy (JStr s) = (s \<noteq> [])"

text \<open>
  Python's \<^verbatim>\<open>==\<close> on these values: \<^verbatim>\<open>bool\<close> is a subclass of \<^verbatim>\<open>int\<close>, so
  \<^verbatim>\<open>True == 1\<close> and \<^verbatim>\<open>False == 0\<close>; values of different types are unequal otherwise.
\<close>

fun as_number :: "json \<Rightarrow> json" where
  "as_number (JBool b) = JInt (if b then 1 else 0)"
| "as_number v = v"

definition py_eq :: "json \<Rightarrow> json \<Rightarrow> bool" where
  "py_eq a b = (as_number a = as_number b)"

fun opt_json :: "string option \<Rightarrow> json" where
  "opt_json None = JNull"
| "opt_json (Some s) = JStr s"

section \<open>The catalog file, its lock and the operating system\<close>

text \<open>
  What \<^verbatim>\<open>os.path.exists\<close>, \<^verbatim>\<open>open\<close> and \<^verbatim>\<open>json.load\<close> find at the path of the catalog:
  no file, a file that cannot be opened for reading, a file that is not well-formed JSON
  (\<^verbatim>\<open>json.JSONDecodeError\<close>), or a JSON array of game objects.
\<close>

datatype file_state = Absent | Unreadable | Corrupt | Catalog "game list"

text \<open>
  What the block \<^verbatim>\<open>with open(file, 'w') as f: json.dump(games, f)\<close> meets: the write goes
  through; \<^verbatim>\<open>open\<close> raises \<^verbatim>\<open>PermissionError\<close>; \<^verbatim>\<open>open\<close> raises another exception; or
  \<^verbatim>\<open>open\<close> succeeds, which empties the file, and \<^verbatim>\<open>json.dump\<close> raises part-way.
\<close>

datatype write_mode = Writes | OpenDenied | OpenFails | DumpFails

text \<open>
  \<open>lock_free\<close> is false when \<^verbatim>\<open>FileLock(LOCK_FILE_PATH, timeout=5)\<close> cannot be acquired
  and raises its timeout.
\<close>

record world =
  games_file :: file_state
  file_write :: write_mode
  lock_free :: bool

datatype outcome =
    Done
  | LockTimeout
  | ReadFailed
  | CorruptCatalog
  | PermissionDenied
  | NotFound
  | Cancelled
  | EmptyName
  | EmptyPath
  | PathMissing
  | SaveFailed

text \<open>
  The write block with its two handlers (\<^verbatim>\<open>except PermissionError\<close>,
  \<^verbatim>\<open>except Exception\<close>). When the write goes through the file holds the serialised
  list. An exception of \<^verbatim>\<open>open\<close> leaves the file as it was. When \<^verbatim>\<open>json.dump\<close> raises
  part-way the file is left holding a proper prefix of the serialisation of a JSON array,
  which is not well-formed JSON.
\<close>

definition write_games :: "world \<Rightarrow> game list \<Rightarrow> outcome \<times> world" where
  "write_games w games =
     (case file_write w of
        Writes \<Rightarrow> (Done, w\<lparr>games_file := Catalog games\<rparr>)
      | OpenDenied \<Rightarrow> (PermissionDenied, w)
      | OpenFails \<Rightarrow> (SaveFailed, w)
      | DumpFails \<Rightarrow> (SaveFailed, w\<lparr>games_file := Corrupt\<rparr>))"

datatype exn = PermissionError | FileNotFoundError | OtherException

text \<open>
  The library and system calls the program makes, as parameters: \<open>md5_hexdigest p\<close> is
  the digest \<^verbatim>\<open>hashlib.md5\<close> gives for the bytes of the file at \<open>p\<close> read in chunks of
  4096, or \<open>None\<close> when opening or reading raises; \<open>Popen argv cwd\<close> is the handle of the
  child process or the exception raised; \<open>open_new_tab url\<close> is the exception raised, if
  any.
\<close>

record os_env =
  abspath :: "string \<Rightarrow> string"
  splitext :: "string \<Rightarrow> string \<times> string"
  str_lower :: "string \<Rightarrow> string"
  dirname :: "string \<Rightarrow> string"
  path_exists :: "string \<Rightarrow> bool"
  md5_hexdigest :: "string \<Rightarrow> string option"
  Popen :: "string list \<Rightarrow> string \<Rightarrow> exn + nat"
  open_new_tab :: "string \<Rightarrow> exn option"

text \<open>\<open>get_file_md5\<close> (source lines 45-56).\<close>

definition get_file_md5 :: "os_env \<Rightarrow> string \<Rightarrow> string option" where
  "get_file_md5 env file_path =
     (if \<not> path_exists env file_path then None else md5_hexdigest env file_path)"

section \<open>Launching a game\<close>

datatype effect = ShowError | OpenTab string | PopenCall "string list" string

record launcher =
  GAME_PROCESSES :: "nat list"
  effects :: "effect list"

text \<open>
  \<open>start_game\<close> returns an integer; its docstring names the four values: 1 success,
  -1 launch failed, -2 file missing, -3 integrity check failed. The effects it has on the
  outside are logged in \<open>effects\<close>, in order: an error dialog, a page handed to the
  browser, a call of \<^verbatim>\<open>subprocess.Popen\<close> with its argument list and working directory.
\<close>

definition Started :: int where "Started = 1"
definition LaunchFailed :: int where "LaunchFailed = - 1"
definition FileMissing :: int where "FileMissing = - 2"
definition IntegrityMismatch :: int where "IntegrityMismatch = - 3"

definition did :: "effect \<Rightarrow> launcher \<Rightarrow> launcher" where
  "did e st = st\<lparr>effects := effects st @ [e]\<rparr>"

text \<open>The test \<^verbatim>\<open>if game_md5:\<close> on an optional string.\<close>

fun md5_given :: "string option \<Rightarrow> bool" where
  "md5_given None = False"
| "md5_given (Some s) = (s \<noteq> [])"

text \<open>\<open>start_game\<close> (source lines 80-125).\<close>

definition start_game :: "os_env \<Rightarrow> launcher \<Rightarrow> string \<Rightarrow> string option \<Rightarrow> int \<times> launcher" where
  "start_game env st path game_md5 =
     (let game_path = abspath env path;
          file_extension = str_lower env (snd (splitext env game_path))
      in if \<not> path_exists env game_path then (- 2, did ShowError st)
         else if md5_given game_md5 \<and> get_file_md5 env game_path \<noteq> game_md5
           then (- 3, did ShowError st)
         else if file_extension = ''.html'' then
           (case open_new_tab env (''file:///'' @ game_path) of
              None \<Rightarrow> (1, did (OpenTab (''file:///'' @ game_path)) st)
            | Some e \<Rightarrow> (- 1, did ShowError (did (OpenTab (''file:///'' @ game_path)) st)))
         else
           (let game_dir = dirname env game_path
            in case Popen env [game_path] game_dir of
                 Inr proc \<Rightarrow>
                   (1, (did (PopenCall [game_path] game_dir) st)
                         \<lparr>GAME_PROCESSES := GAME_PROCESSES st @ [proc]\<rparr>)
               | Inl e \<Rightarrow> (- 1, did ShowError (did (PopenCall [game_path] game_dir) st))))"

section \<open>Catalog operations\<close>

subsection \<open>Import\<close>

definition new_game :: "string \<Rightarrow> string \<Rightarrow> string \<Rightarrow> string option \<Rightarrow> game" where
  "new_game uuid4 new_name game_path game_md5 =
     [(''id'', JStr uuid4),
      (''name'', JStr new_name),
      (''path'', JStr game_path),
      (''md5'', opt_json game_md5),
      (''is_last_selected'', JBool False)]"

text \<open>
  \<open>import_with_new_name\<close> (source lines 225-275): \<open>new_name\<close> is the entry's text after \<^verbatim>\<open>strip()\<close>, \<open>uuid4\<close>
  the string \<^verbatim>\<open>str(uuid.uuid4())\<close> returns, \<open>recreate\<close> and \<open>proceed\<close> the user's answers
  to the two \<^verbatim>\<open>askyesno\<close> dialogs (corrupt file; name already there).
\<close>

definition import_with_new_name ::
  "world \<Rightarrow> string \<Rightarrow> string \<Rightarrow> string option \<Rightarrow> string \<Rightarrow> bool \<Rightarrow> bool \<Rightarrow> outcome \<times> world" where
  "import_with_new_name w new_name game_path game_md5 uuid4 recreate proceed =
     (if new_name = [] then (EmptyName, w)
      else if \<not> lock_free w then (LockTimeout, w)
      else
        (case (case games_file w of
                 Absent \<Rightarrow> Inr []
               | Catalog gs \<Rightarrow> Inr gs
               | Corrupt \<Rightarrow> if recreate then Inr [] else Inl Cancelled
               | Unreadable \<Rightarrow> Inl ReadFailed) of
           Inl e \<Rightarrow> (e, w)
         | Inr games \<Rightarrow>
             if list_ex (\<lambda>game. py_eq (dict_get game ''name'' JNull) (JStr new_name)) games
                \<and> \<not> proceed
             then (Cancelled, w)
             else write_games w (games @ [new_game uuid4 new_name game_path game_md5])))"

subsection \<open>Edit\<close>

text \<open>The loop \<^verbatim>\<open>for i, game in enumerate(games)\<close> up to its \<^verbatim>\<open>break\<close>: the first index
  whose game has the id.\<close>

fun find_game :: "json \<Rightarrow> game list \<Rightarrow> nat option" where
  "find_game game_id [] = None"
| "find_game game_id (game # games) =
     (if py_eq (dict_get game ''id'' JNull) game_id then Some 0
      else map_option Suc (find_game game_id games))"

definition update_fields :: "string \<Rightarrow> string \<Rightarrow> string option \<Rightarrow> game \<Rightarrow> game" where
  "update_fields new_name new_path new_md5 game =
     dict_set ''md5'' (opt_json new_md5)
       (dict_set ''path'' (JStr new_path)
         (dict_set ''name'' (JStr new_name) game))"

text \<open>
  \<open>save_settings\<close> (source lines 418-480): \<open>new_name\<close> and \<open>new_path\<close> are the entries' texts after
  \<^verbatim>\<open>strip()\<close>, \<open>proceed\<close> the answer to the dialog shown when another game has the name.
\<close>

definition save_settings ::
  "os_env \<Rightarrow> world \<Rightarrow> json \<Rightarrow> string \<Rightarrow> string \<Rightarrow> bool \<Rightarrow> outcome \<times> world" where
  "save_settings env w game_id new_name new_path proceed =
     (let new_md5 = (if new_path \<noteq> [] then get_file_md5 env new_path else None)
      in if new_name = [] then (EmptyName, w)
         else if new_path = [] then (EmptyPath, w)
         else if \<not> path_exists env new_path then (PathMissing, w)
         else if \<not> lock_free w then (LockTimeout, w)
         else
           (case (case games_file w of
                    Absent \<Rightarrow> Inr []
                  | Catalog gs \<Rightarrow> Inr gs
                  | Corrupt \<Rightarrow> Inl CorruptCatalog
                  | Unreadable \<Rightarrow> Inl ReadFailed) of
              Inl e \<Rightarrow> (e, w)
            | Inr games \<Rightarrow>
                (case find_game game_id games of
                   None \<Rightarrow> (NotFound, w)
                 | Some i \<Rightarrow>
                     if list_ex (\<lambda>g. py_eq (dict_get g ''name'' JNull) (JStr new_name)
                                     \<and> \<not> py_eq (dict_get g ''id'' JNull) game_id) games
                        \<and> \<not> proceed
                     then (Cancelled, w)
                     else write_games w
                            (games[i := update_fields new_name new_path new_md5 (games ! i)]))))"

subsection \<open>List\<close>

text \<open>The name given to a stored game that has none (twelve bytes of UTF-8).\<close>

definition unknown_game :: string where
  "unknown_game =
     [CHR 0xE6, CHR 0x9C, CHR 0xAA, CHR 0xE7, CHR 0x9F, CHR 0xA5,
      CHR 0xE6, CHR 0xB8, CHR 0xB8, CHR 0xE6, CHR 0x88, CHR 0x8F]"

text \<open>
  The dictionary \<open>load_games\<close> builds for one stored game. Python evaluates the default
  argument \<^verbatim>\<open>str(uuid.uuid4())\<close> for every game; \<open>uuid4\<close> is that string.
\<close>

definition heal :: "string \<Rightarrow> game \<Rightarrow> game" where
  "heal uuid4 game =
     [(''id'', dict_get game ''id'' (JStr uuid4)),
      (''name'', dict_get game ''name'' (JStr unknown_game)),
      (''path'', dict_get game ''path'' (JStr [])),
      (''md5'', dict_get game ''md5'' JNull),
      (''is_last_selected'', dict_get game ''is_last_selected'' (JBool False))]"

text \<open>The loop over the stored games; \<open>uuids i\<close> is the string drawn for the game at
  position \<open>i\<close>.\<close>

definition heal_games :: "(nat \<Rightarrow> string) \<Rightarrow> game list \<Rightarrow> game list" where
  "heal_games uuids games = map (\<lambda>(i, game). heal (uuids i) game) (enumerate 0 games)"

text \<open>The key of \<^verbatim>\<open>current_games.sort\<close>; the sort is stable and puts \<open>False\<close> first.\<close>

definition not_last_selected :: "game \<Rightarrow> bool" where
  "not_last_selected x = (\<not> truthy (dict_get x ''is_last_selected'' JNull))"

text \<open>
  \<open>load_games\<close> (source lines 583-614) returns what happened, the world and the list
  \<^verbatim>\<open>self.current_games\<close> it leaves. The test for the file comes before the lock.
\<close>

definition load_games :: "world \<Rightarrow> (nat \<Rightarrow> string) \<Rightarrow> outcome \<times> world \<times> game list" where
  "load_games w uuids =
     (case games_file w of
        Absent \<Rightarrow> (Done, w, [])
      | Unreadable \<Rightarrow> if lock_free w then (ReadFailed, w, []) else (LockTimeout, w, [])
      | Corrupt \<Rightarrow> if lock_free w then (CorruptCatalog, w, []) else (LockTimeout, w, [])
      | Catalog games \<Rightarrow>
          if lock_free w
          then (Done, w, sort_key not_last_selected (heal_games uuids games))
          else (LockTimeout, w, []))"

subsection \<open>Select and delete\<close>

text \<open>
  The locked block of \<open>save_and_close\<close> (source lines 636-659); \<open>selected_game_id\<close> is the value
  \<^verbatim>\<open>selected_game["id"]\<close> of the game chosen in the list box.
\<close>

definition mark_selected :: "json \<Rightarrow> game \<Rightarrow> game" where
  "mark_selected selected_game_id game =
     dict_set ''is_last_selected''
       (JBool (py_eq (dict_get game ''id'' JNull) selected_game_id)) game"

definition save_and_close :: "world \<Rightarrow> json \<Rightarrow> outcome \<times> world" where
  "save_and_close w selected_game_id =
     (if \<not> lock_free w then (LockTimeout, w)
      else
        (case (case games_file w of
                 Absent \<Rightarrow> Inr []
               | Catalog gs \<Rightarrow> Inr gs
               | Corrupt \<Rightarrow> Inl ReadFailed
               | Unreadable \<Rightarrow> Inl ReadFailed) of
           Inl e \<Rightarrow> (e, w)
         | Inr games \<Rightarrow> write_games w (map (mark_selected selected_game_id) games)))"

text \<open>
  The locked block of \<open>delete_game\<close> (source lines 702-728), entered once the user has
  confirmed;
  \<open>selected_game_id\<close> is \<^verbatim>\<open>selected_game["id"]\<close>.
\<close>

definition delete_game :: "world \<Rightarrow> json \<Rightarrow> outcome \<times> world" where
  "delete_game w selected_game_id =
     (if \<not> lock_free w then (LockTimeout, w)
      else
        (case (case games_file w of
                 Absent \<Rightarrow> Inr []
               | Catalog gs \<Rightarrow> Inr gs
               | Corrupt \<Rightarrow> Inl ReadFailed
               | Unreadable \<Rightarrow> Inl ReadFailed) of
           Inl e \<Rightarrow> (e, w)
         | Inr games \<Rightarrow>
             (let kept = filter (\<lambda>game. \<not> py_eq (dict_get game ''id'' JNull) selected_game_id) games
              in if length kept = length games then (NotFound, w)
                 else write_games w kept)))"

text \<open>How the readers of the file take the selection flag of a stored game
  (\<^verbatim>\<open>game.get("is_last_selected", False)\<close>).\<close>

definition is_last_selected :: "game \<Rightarrow> bool" where
  "is_last_selected game = truthy (dict_get game ''is_last_selected'' (JBool False))"

text \<open>The games a world's catalog file holds (none when there is no readable catalog).\<close>

definition stored_games :: "world \<Rightarrow> game list" where
  "stored_games w = (case games_file w of Catalog gs \<Rightarrow> gs | _ \<Rightarrow> [])"

definition id_of :: "game \<Rightarrow> json" where
  "id_of game = dict_get game ''id'' JNull"

text \<open>
  The ids of a list of games as Python's \<^verbatim>\<open>==\<close> tells them apart: \<^verbatim>\<open>true\<close> and \<open>1\<close>
  are one id, and so are a missing id and \<^verbatim>\<open>null\<close>.
\<close>

definition ids_of :: "game list \<Rightarrow> json list" where
  "ids_of games = map (\<lambda>game. as_number (id_of game)) games"

definition distinct_ids :: "game list \<Rightarrow> bool" where
  "distinct_ids games = distinct (map (\<lambda>game. as_number (id_of game)) games)"

subsection \<open>Sequences of operations\<close>

text \<open>
  The operations that rewrite the catalog, with their inputs, and a run of a sequence of
  them from a world. \<open>uuids k\<close> is the string \<^verbatim>\<open>str(uuid.uuid4())\<close> gives in the \<open>k\<close>-th
  operation of the session (only an import draws one). The world an operation leaves,
  also when it fails, is the world the next one starts from.
\<close>

datatype operation =
    ImportGame string string "string option" bool bool
  | UpdateGame os_env json string string bool
  | DeleteGame json
  | SelectGame json

fun apply_operation :: "world \<Rightarrow> string \<Rightarrow> operation \<Rightarrow> outcome \<times> world" where
  "apply_operation w uuid4 (ImportGame new_name game_path game_md5 recreate proceed) =
     import_with_new_name w new_name game_path game_md5 uuid4 recreate proceed"
| "apply_operation w uuid4 (UpdateGame env gid new_name new_path proceed) =
     save_settings env w gid new_name new_path proceed"
| "apply_operation w uuid4 (DeleteGame gid) = delete_game w gid"
| "apply_operation w uuid4 (SelectGame gid) = save_and_close w gid"

fun run_operations :: "(nat \<Rightarrow> string) \<Rightarrow> nat \<Rightarrow> world \<Rightarrow> operation list \<Rightarrow> world" where
  "run_operations uuids k w [] = w"
| "run_operations uuids k w (operation # operations) =
     run_operations uuids (Suc k) (snd (apply_operation w (uuids k) operation)) operations"

text \<open>
  The data model's invariant on ids, for the games stored before the \<open>k\<close>-th operation:
  no two of them have the same id, and none has an id that \<^verbatim>\<open>uuid4\<close> gives from then on.
  A catalog without games has it. That \<^verbatim>\<open>uuid4\<close> never gives the same string twice is
  \<open>inj uuids\<close>.
\<close>

definition never_reused :: "(nat \<Rightarrow> string) \<Rightarrow> nat \<Rightarrow> game list \<Rightarrow> bool" where
  "never_reused uuids k games =
     (distinct (ids_of games) \<and> (\<forall>j\<ge>k. JStr (uuids j) \<notin> set (ids_of games)))"

text \<open>The five fields of a game, in the order the program writes them.\<close>

definition game_fields :: "string list" where
  "game_fields = [''id'', ''name'', ''path'', ''md5'', ''is_last_selected'']"

section \<open>Example worlds\<close>

definition open_world :: "game list \<Rightarrow> world" where
  "open_world games = \<lparr>games_file = Catalog games, file_write = Writes, lock_free = True\<rparr>"

definition foo_game :: game where
  "foo_game = new_game ''a'' ''Foo'' ''/games/foo.exe'' None"

definition bar_game :: game where
  "bar_game = new_game ''b'' ''Bar'' ''/games/bar.html'' (Some ''0cc175b9'')"

text \<open>\<open>bar_game\<close> once it has been selected.\<close>

definition bar_selected :: game where
  "bar_selected = dict_set ''is_last_selected'' (JBool True) bar_game"

text \<open>A session in which the \<open>k\<close>-th draw of \<^verbatim>\<open>uuid4\<close> is the letter u, \<open>k + 1\<close> times.\<close>

definition session_uuids :: "nat \<Rightarrow> string" where
  "session_uuids k = replicate (Suc k) (CHR ''u'')"

text \<open>Stored games as older versions wrote them: no id, or only a path.\<close>

definition legacy_game :: game where
  "legacy_game = [(''name'', JStr ''Old''), (''path'', JStr ''/games/old.exe''),
                  (''is_last_selected'', JBool True)]"

definition bare_game :: game where
  "bare_game = [(''path'', JStr ''/games/bare.exe'')]"

text \<open>
  An operating system with two files, \<^verbatim>\<open>/games/foo.exe\<close> and \<^verbatim>\<open>/games/bar.html\<close>, in
  which every path is already absolute and lower case, every spawn gives the handle
  \<open>4242\<close> and the browser opens every page.
\<close>

definition two_files :: os_env where
  "two_files =
     \<lparr>abspath = (\<lambda>p. p),
      splitext = (\<lambda>p. if p = ''/games/bar.html'' then (''/games/bar'', ''.html'')
                      else if p = ''/games/foo.exe'' then (''/games/foo'', ''.exe'')
                      else (p, [])),
      str_lower = (\<lambda>s. s),
      dirname = (\<lambda>p. ''/games''),
      path_exists = (\<lambda>p. p = ''/games/foo.exe'' \<or> p = ''/games/bar.html''),
      md5_hexdigest = (\<lambda>p. if p = ''/games/bar.html'' then Some ''0cc175b9''
                           else if p = ''/games/foo.exe'' then Some ''92eb5ffe''
                           else None),
      Popen = (\<lambda>argv cwd. Inr 4242),
      open_new_tab = (\<lambda>url. None)\<rparr>"

text \<open>The same, but the system refuses to execute any file.\<close>

definition no_exec :: os_env where
  "no_exec = two_files\<lparr>Popen := (\<lambda>argv cwd. Inl PermissionError)\<rparr>"

definition idle :: launcher where
  "idle = \<lparr>GAME_PROCESSES = [], effects = []\<rparr>"

lemmas eval_defs =
  open_world_def foo_game_def bar_game_def bar_selected_def new_game_def
  legacy_game_def bare_game_def game_fields_def unknown_game_def
  stored_games_def distinct_ids_def ids_of_def id_of_def dict_get_def dict_set_def py_eq_def
  is_last_selected_def not_last_selected_def mark_selected_def update_fields_def
  write_games_def import_with_new_name_def save_settings_def delete_game_def
  save_and_close_def load_games_def heal_games_def heal_def get_file_md5_def

lemmas launch_defs =
  start_game_def get_file_md5_def did_def two_files_def no_exec_def idle_def
  Started_def LaunchFailed_def FileMissing_def IntegrityMismatch_def

section \<open>Basic facts\<close>

lemma insort_key_after_False:
  fixes f :: "'a \<Rightarrow> bool"
  assumes "f x" "\<forall>a\<in>set A. \<not> f a" "\<forall>b\<in>set B. f b"
  shows "insort_key f x (A @ B) = A @ x # B"
  using assms by (induction A) (auto simp: insort_is_Cons)

lemma sort_key_bool:
  fixes f :: "'a \<Rightarrow> bool"
  shows "sort_key f xs = filter (\<lambda>x. \<not> f x) xs @ filter f xs"
proof (induction xs)
  case Nil
  show ?case by simp
next
  case (Cons x xs)
  have step: "sort_key f (x # xs)
      = insort_key f x (filter (\<lambda>x. \<not> f x) xs @ filter f xs)"
    by (simp only: sort_key_simps Cons.IH)
  show ?case
  proof (cases "f x")
    case True
    have "insort_key f x (filter (\<lambda>x. \<not> f x) xs @ filter f xs)
        = filter (\<lambda>x. \<not> f x) xs @ x # filter f xs"
      by (rule insort_key_after_False) (use True in simp_all)
    with step True show ?thesis by simp
  next
    case False
    have "insort_key f x (filter (\<lambda>x. \<not> f x) xs @ filter f xs)
        = x # filter (\<lambda>x. \<not> f x) xs @ filter f xs"
      by (rule insort_is_Cons) (use False in simp)
    with step False show ?thesis by simp
  qed
qed

lemma dict_get_dict_set:
  "dict_get (dict_set k v d) k' dflt = (if k' = k then v else dict_get d k' dflt)"
  by (simp add: dict_get_def dict_set_def update_conv')

lemma id_of_mark_selected: "id_of (mark_selected sid g) = id_of g"
  by (simp add: id_of_def mark_selected_def dict_get_dict_set)

lemma is_last_selected_mark_selected:
  "is_last_selected (mark_selected sid g) = py_eq (id_of g) sid"
  by (simp add: is_last_selected_def mark_selected_def dict_get_dict_set id_of_def)

lemma distinct_map_filter_le1:
  "distinct (map f xs) \<Longrightarrow> length (filter (\<lambda>x. f x = c) xs) \<le> Suc 0"
proof (induction xs)
  case Nil
  show ?case by simp
next
  case (Cons x xs)
  show ?case
  proof (cases "f x = c")
    case True
    with Cons.prems have "\<forall>y\<in>set xs. f y \<noteq> c" by (auto simp: image_iff)
    then have "filter (\<lambda>x. f x = c) xs = []" by (simp add: filter_empty_conv)
    with True show ?thesis by simp
  next
    case False
    with Cons show ?thesis by simp
  qed
qed


lemma save_and_close_Done:
  assumes "save_and_close w sid = (Done, w')"
  shows "w' = w\<lparr>games_file := Catalog (map (mark_selected sid) (stored_games w))\<rparr>"
  using assms
  by (auto simp: save_and_close_def write_games_def stored_games_def
      split: if_splits file_state.splits write_mode.splits)

lemma import_with_new_name_Done:
  assumes "import_with_new_name w n p m u rc pr = (Done, w')"
  shows "w' = w\<lparr>games_file := Catalog (stored_games w @ [new_game u n p m])\<rparr>"
  using assms
  by (auto simp: import_with_new_name_def write_games_def stored_games_def
      split: if_splits file_state.splits write_mode.splits)

lemma import_with_new_name_failed:
  assumes "import_with_new_name w n p m u rc pr = (r, w')" "r \<noteq> Done"
  shows "w' = w \<or> w' = w\<lparr>games_file := Corrupt\<rparr>"
  using assms
  by (auto simp: import_with_new_name_def write_games_def
      split: if_splits file_state.splits write_mode.splits)

lemma find_game_Some:
  "find_game gid games = Some i \<Longrightarrow>
     i < length games \<and> py_eq (id_of (games ! i)) gid
     \<and> (\<forall>j<i. \<not> py_eq (id_of (games ! j)) gid)"
proof (induction games arbitrary: i)
  case Nil
  then show ?case by simp
next
  case (Cons g games)
  show ?case
  proof (cases "py_eq (dict_get g ''id'' JNull) gid")
    case True
    with Cons.prems show ?thesis by (simp add: id_of_def)
  next
    case False
    with Cons.prems obtain k where k: "find_game gid games = Some k" "i = Suc k"
      by auto
    from Cons.IH[OF k(1)] False k(2) show ?thesis
      by (auto simp: id_of_def less_Suc_eq_0_disj)
  qed
qed

lemma find_game_None:
  "find_game gid games = None \<longleftrightarrow> (\<forall>g\<in>set games. \<not> py_eq (id_of g) gid)"
  by (induction games) (auto simp: id_of_def)

lemma save_settings_Done:
  assumes "save_settings env w gid n p pr = (Done, w')"
  shows "\<exists>i. find_game gid (stored_games w) = Some i
           \<and> w' = w\<lparr>games_file := Catalog ((stored_games w)
                  [i := update_fields n p (get_file_md5 env p) (stored_games w ! i)])\<rparr>"
  using assms
  by (auto simp: save_settings_def write_games_def stored_games_def Let_def
      split: if_splits file_state.splits option.splits write_mode.splits)

lemma save_settings_failed:
  assumes "save_settings env w gid n p pr = (r, w')" "r \<noteq> Done"
  shows "w' = w \<or> w' = w\<lparr>games_file := Corrupt\<rparr>"
  using assms
  by (auto simp: save_settings_def write_games_def Let_def
      split: if_splits file_state.splits option.splits write_mode.splits)

lemma save_settings_NotFound_same:
  assumes "save_settings env w gid n p pr = (NotFound, w')"
  shows "w' = w"
  using assms
  by (auto simp: save_settings_def write_games_def Let_def
      split: if_splits file_state.splits option.splits write_mode.splits)

lemma delete_game_Done:
  assumes "delete_game w gid = (Done, w')"
  shows "w' = w\<lparr>games_file := Catalog (filter (\<lambda>g. \<not> py_eq (id_of g) gid) (stored_games w))\<rparr>"
  using assms
  by (auto simp: delete_game_def write_games_def stored_games_def Let_def id_of_def
      split: if_splits file_state.splits write_mode.splits)

lemma delete_game_failed:
  assumes "delete_game w gid = (r, w')" "r \<noteq> Done"
  shows "w' = w \<or> w' = w\<lparr>games_file := Corrupt\<rparr>"
  using assms
  by (auto simp: delete_game_def write_games_def Let_def
      split: if_splits file_state.splits write_mode.splits)

lemma delete_game_NotFound_same:
  assumes "delete_game w gid = (NotFound, w')"
  shows "w' = w"
  using assms
  by (auto simp: delete_game_def write_games_def Let_def
      split: if_splits file_state.splits write_mode.splits)

lemma save_and_close_failed:
  assumes "save_and_close w gid = (r, w')" "r \<noteq> Done"
  shows "w' = w \<or> w' = w\<lparr>games_file := Corrupt\<rparr>"
  using assms
  by (auto simp: save_and_close_def write_games_def
      split: if_splits file_state.splits write_mode.splits)

lemma stored_games_update [simp]:
  "stored_games (w\<lparr>games_file := Catalog gs\<rparr>) = gs"
  by (simp add: stored_games_def)

lemma stored_games_Corrupt [simp]:
  "stored_games (w\<lparr>games_file := Corrupt\<rparr>) = []"
  by (simp add: stored_games_def)

lemma id_of_update_fields: "id_of (update_fields n p m g) = id_of g"
  by (simp add: id_of_def update_fields_def dict_get_dict_set)

lemma id_of_new_game: "id_of (new_game u n p m) = JStr u"
  by (simp add: id_of_def new_game_def dict_get_def)

lemma map_id_list_update:
  "i < length gs \<Longrightarrow> f (h (gs ! i)) = f (gs ! i) \<Longrightarrow> map f (gs[i := h (gs ! i)]) = map f gs"
  by (simp add: map_update list_update_same_conv)

lemma distinct_ids_ids_of: "distinct_ids games = distinct (ids_of games)"
  by (simp add: distinct_ids_def ids_of_def)

text \<open>
  What an operation does to the ids in the catalog: an import that succeeds appends a
  game with the drawn id; anything else leaves ids that were there, no id twice that was
  not there twice.
\<close>

lemma ids_kept:
  assumes "w' = w \<or> w' = w\<lparr>games_file := Corrupt\<rparr>"
  shows "set (ids_of (stored_games w')) \<subseteq> set (ids_of (stored_games w))
       \<and> (distinct (ids_of (stored_games w)) \<longrightarrow> distinct (ids_of (stored_games w')))"
  using assms by (auto simp: ids_of_def)

lemma ids_after_operation:
  "(\<exists>n p m. stored_games (snd (apply_operation w u operation))
              = stored_games w @ [new_game u n p m])
   \<or> (set (ids_of (stored_games (snd (apply_operation w u operation))))
         \<subseteq> set (ids_of (stored_games w))
       \<and> (distinct (ids_of (stored_games w)) \<longrightarrow>
            distinct (ids_of (stored_games (snd (apply_operation w u operation))))))"
proof (cases operation)
  case (ImportGame n p m rc pr)
  obtain r w' where rw: "import_with_new_name w n p m u rc pr = (r, w')"
    by (cases "import_with_new_name w n p m u rc pr")
  show ?thesis
  proof (cases "r = Done")
    case True
    with rw have "w' = w\<lparr>games_file := Catalog (stored_games w @ [new_game u n p m])\<rparr>"
      using import_with_new_name_Done by blast
    then have "stored_games w' = stored_games w @ [new_game u n p m]" by simp
    with ImportGame rw show ?thesis by auto
  next
    case False
    with rw have "w' = w \<or> w' = w\<lparr>games_file := Corrupt\<rparr>"
      using import_with_new_name_failed by blast
    from ids_kept[OF this] ImportGame rw show ?thesis by simp
  qed
next
  case (UpdateGame env gid n p pr)
  obtain r w' where rw: "save_settings env w gid n p pr = (r, w')"
    by (cases "save_settings env w gid n p pr")
  show ?thesis
  proof (cases "r = Done")
    case True
    with rw obtain i where i: "find_game gid (stored_games w) = Some i"
      "w' = w\<lparr>games_file := Catalog ((stored_games w)
                  [i := update_fields n p (get_file_md5 env p) (stored_games w ! i)])\<rparr>"
      using save_settings_Done by blast
    from find_game_Some[OF i(1)] have "i < length (stored_games w)" by simp
    then have "map (\<lambda>game. as_number (id_of game)) ((stored_games w)
                  [i := update_fields n p (get_file_md5 env p) (stored_games w ! i)])
             = map (\<lambda>game. as_number (id_of game)) (stored_games w)"
      by (intro map_id_list_update) (simp_all add: id_of_update_fields)
    then have "ids_of (stored_games w') = ids_of (stored_games w)"
      using i(2) by (simp add: ids_of_def)
    with UpdateGame rw show ?thesis by simp
  next
    case False
    with rw have "w' = w \<or> w' = w\<lparr>games_file := Corrupt\<rparr>"
      using save_settings_failed by blast
    from ids_kept[OF this] UpdateGame rw show ?thesis by simp
  qed
next
  case (DeleteGame gid)
  obtain r w' where rw: "delete_game w gid = (r, w')"
    by (cases "delete_game w gid")
  show ?thesis
  proof (cases "r = Done")
    case True
    with rw have "w' = w\<lparr>games_file :=
        Catalog (filter (\<lambda>g. \<not> py_eq (id_of g) gid) (stored_games w))\<rparr>"
      using delete_game_Done by blast
    then have "stored_games w' = filter (\<lambda>g. \<not> py_eq (id_of g) gid) (stored_games w)"
      by simp
    then have "set (ids_of (stored_games w')) \<subseteq> set (ids_of (stored_games w))
       \<and> (distinct (ids_of (stored_games w)) \<longrightarrow> distinct (ids_of (stored_games w')))"
      by (auto simp: ids_of_def distinct_map_filter)
    with DeleteGame rw show ?thesis by simp
  next
    case False
    with rw have "w' = w \<or> w' = w\<lparr>games_file := Corrupt\<rparr>"
      using delete_game_failed by blast
    from ids_kept[OF this] DeleteGame rw show ?thesis by simp
  qed
next
  case (SelectGame gid)
  obtain r w' where rw: "save_and_close w gid = (r, w')"
    by (cases "save_and_close w gid")
  show ?thesis
  proof (cases "r = Done")
    case True
    with rw have "w' = w\<lparr>games_file := Catalog (map (mark_selected gid) (stored_games w))\<rparr>"
      using save_and_close_Done by blast
    then have "ids_of (stored_games w') = ids_of (stored_games w)"
      by (simp add: ids_of_def comp_def id_of_mark_selected)
    with SelectGame rw show ?thesis by simp
  next
    case False
    with rw have "w' = w \<or> w' = w\<lparr>games_file := Corrupt\<rparr>"
      using save_and_close_failed by blast
    from ids_kept[OF this] SelectGame rw show ?thesis by simp
  qed
qed

lemma never_reused_apply_operation:
  assumes "inj uuids" "never_reused uuids k (stored_games w)"
  shows "never_reused uuids (Suc k) (stored_games (snd (apply_operation w (uuids k) operation)))"
proof -
  let ?gs = "stored_games w"
  let ?gs' = "stored_games (snd (apply_operation w (uuids k) operation))"
  have d: "distinct (ids_of ?gs)" and f: "\<forall>j\<ge>k. JStr (uuids j) \<notin> set (ids_of ?gs)"
    using assms(2) by (simp_all add: never_reused_def)
  from ids_after_operation[of w "uuids k" operation]
  consider (appended) n p m where "?gs' = ?gs @ [new_game (uuids k) n p m]"
    | (kept) "set (ids_of ?gs') \<subseteq> set (ids_of ?gs)" "distinct (ids_of ?gs')"
    using d by blast
  then show ?thesis
  proof cases
    case appended
    then have ids: "ids_of ?gs' = ids_of ?gs @ [JStr (uuids k)]"
      by (simp add: ids_of_def id_of_new_game)
    have "JStr (uuids k) \<notin> set (ids_of ?gs)" using f by simp
    then have "distinct (ids_of ?gs')" using d ids by simp
    moreover have "\<forall>j\<ge>Suc k. JStr (uuids j) \<notin> set (ids_of ?gs')"
    proof (intro allI impI)
      fix j assume j: "Suc k \<le> j"
      have "uuids j \<noteq> uuids k"
      proof
        assume "uuids j = uuids k"
        with assms(1) have "j = k" by (simp add: inj_eq)
        with j show False by simp
      qed
      moreover have "JStr (uuids j) \<notin> set (ids_of ?gs)" using f j by simp
      ultimately show "JStr (uuids j) \<notin> set (ids_of ?gs')" using ids by simp
    qed
    ultimately show ?thesis by (simp add: never_reused_def)
  next
    case kept
    have "\<forall>j\<ge>Suc k. JStr (uuids j) \<notin> set (ids_of ?gs')"
    proof (intro allI impI)
      fix j assume "Suc k \<le> j"
      then have "JStr (uuids j) \<notin> set (ids_of ?gs)" using f by simp
      then show "JStr (uuids j) \<notin> set (ids_of ?gs')" using kept(1) by blast
    qed
    then show ?thesis using kept(2) by (simp add: never_reused_def)
  qed
qed

lemma never_reused_run_operations:
  "inj uuids \<Longrightarrow> never_reused uuids k (stored_games w) \<Longrightarrow>
     never_reused uuids (k + length operations)
       (stored_games (run_operations uuids k w operations))"
proof (induction operations arbitrary: k w)
  case Nil
  then show ?case by simp
next
  case (Cons operation operations)
  from never_reused_apply_operation[OF Cons.prems]
  have "never_reused uuids (Suc k)
      (stored_games (snd (apply_operation w (uuids k) operation)))" .
  from Cons.IH[OF Cons.prems(1) this] show ?case by simp
qed

lemma run_operations_append:
  "run_operations uuids k w (operations @ [operation])
     = snd (apply_operation (run_operations uuids k w operations)
              (uuids (k + length operations)) operation)"
  by (induction operations arbitrary: k w) simp_all

lemma at_most_one_selected:
  assumes "distinct_ids games"
  shows "length (filter is_last_selected (map (mark_selected sid) games)) \<le> 1"
proof -
  have "filter is_last_selected (map (mark_selected sid) games)
      = map (mark_selected sid) (filter (\<lambda>g. as_number (id_of g) = as_number sid) games)"
    by (simp add: filter_map comp_def is_last_selected_mark_selected py_eq_def)
  then show ?thesis
    using distinct_map_filter_le1[OF assms[unfolded distinct_ids_def], of "as_number sid"]
    by simp
qed

section \<open>C1: selection is exclusive\<close>

text \<open>
  C1. Take a catalog that has the data model's invariant on ids (no two stored games
  with the same id, none with an id that \<^verbatim>\<open>uuid4\<close> is still to give; the catalog without
  games is one), a \<^verbatim>\<open>uuid4\<close> that never gives the same string twice, and any sequence of
  imports, edits, deletions and selections run from it. A \<open>save_and_close\<close> that then
  succeeds writes, in one write, the stored games with the selection flag of each set
  to whether its id equals the selected id - true on the matching game, false on every
  other - and at most one game of the written catalog is selected.
\<close>

theorem select_exclusive:
  assumes "inj uuids" and "never_reused uuids 0 (stored_games w)"
    and "save_and_close (run_operations uuids 0 w operations) sid = (Done, w')"
  shows "stored_games w'
           = map (mark_selected sid) (stored_games (run_operations uuids 0 w operations))
       \<and> (\<forall>g \<in> set (stored_games (run_operations uuids 0 w operations)).
            is_last_selected (mark_selected sid g) = py_eq (id_of g) sid)
       \<and> length (filter is_last_selected (stored_games w')) \<le> 1"
proof -
  let ?v = "run_operations uuids 0 w operations"
  have st: "stored_games w' = map (mark_selected sid) (stored_games ?v)"
    using save_and_close_Done[OF assms(3)] by simp
  have "never_reused uuids (0 + length operations) (stored_games ?v)"
    using assms(1,2) by (rule never_reused_run_operations)
  then have "distinct_ids (stored_games ?v)"
    by (simp add: never_reused_def distinct_ids_ids_of)
  then have "length (filter is_last_selected (stored_games w')) \<le> 1"
    unfolding st by (rule at_most_one_selected)
  then show ?thesis using st by (simp add: is_last_selected_mark_selected)
qed

lemma inj_session_uuids: "inj session_uuids"
proof (rule injI)
  fix j k assume "session_uuids j = session_uuids k"
  then have "length (session_uuids j) = length (session_uuids k)" by simp
  then show "j = k" by (simp add: session_uuids_def)
qed

lemma session_uuids_0_1: "session_uuids 0 = ''u''" "session_uuids (Suc 0) = ''uu''"
  by (simp_all add: session_uuids_def)

theorem select_exclusive_witness:
  "stored_games (snd (save_and_close
      (run_operations session_uuids 0 (open_world [])
         [ImportGame ''Foo'' ''/games/foo.exe'' None False False,
          ImportGame ''Foo'' ''/games/twin.exe'' None False True,
          SelectGame (JStr ''u'')])
      (JStr ''uu'')))
     = [new_game ''u'' ''Foo'' ''/games/foo.exe'' None,
        dict_set ''is_last_selected'' (JBool True)
          (new_game ''uu'' ''Foo'' ''/games/twin.exe'' None)]
   \<and> length (filter is_last_selected
        (stored_games (snd (save_and_close
          (run_operations session_uuids 0 (open_world [])
             [ImportGame ''Foo'' ''/games/foo.exe'' None False False,
              ImportGame ''Foo'' ''/games/twin.exe'' None False True,
              SelectGame (JStr ''u'')])
          (JStr ''uu''))))) \<le> 1"
proof -
  let ?w = "open_world []"
  let ?ops = "[ImportGame ''Foo'' ''/games/foo.exe'' None False False,
               ImportGame ''Foo'' ''/games/twin.exe'' None False True,
               SelectGame (JStr ''u'')]"
  let ?v = "run_operations session_uuids 0 ?w ?ops"
  let ?w' = "snd (save_and_close ?v (JStr ''uu''))"
  have h2: "never_reused session_uuids 0 (stored_games ?w)"
    by (simp add: never_reused_def ids_of_def open_world_def stored_games_def)
  have v: "?v = open_world [mark_selected (JStr ''u'') (new_game ''u'' ''Foo'' ''/games/foo.exe'' None),
                            mark_selected (JStr ''u'') (new_game ''uu'' ''Foo'' ''/games/twin.exe'' None)]"
    by (simp add: session_uuids_0_1 import_with_new_name_def save_and_close_def
        write_games_def open_world_def dict_get_def new_game_def py_eq_def)
  have "fst (save_and_close ?v (JStr ''uu'')) = Done"
    unfolding v by (simp add: save_and_close_def write_games_def open_world_def)
  then have h3: "save_and_close ?v (JStr ''uu'') = (Done, ?w')"
    by (simp add: prod_eq_iff)
  note t = select_exclusive[OF inj_session_uuids h2 h3]
  have "stored_games ?w'
     = [new_game ''u'' ''Foo'' ''/games/foo.exe'' None,
        dict_set ''is_last_selected'' (JBool True)
          (new_game ''uu'' ''Foo'' ''/games/twin.exe'' None)]"
    unfolding v
    by (simp add: save_and_close_def write_games_def open_world_def stored_games_def
        mark_selected_def dict_set_def dict_get_def new_game_def py_eq_def)
  with t show ?thesis by (elim conjE) (intro conjI)
qed

section \<open>C2: a hash mismatch stops the launch\<close>

text \<open>
  C2. \<open>start_game\<close> returns \<open>IntegrityMismatch\<close> exactly when the file at the resolved
  path exists, an expected hash is given (not \<open>None\<close>, not empty) and the recomputed hash
  differs from it. In that case the process registry is unchanged and the only effect is
  the error dialog: no child process is spawned and no page is opened. When no expected
  hash is given, the result does not depend on the file's hash: the check is not made.
\<close>

theorem integrity_mismatch_blocks_launch:
  "(fst (start_game env st path game_md5) = IntegrityMismatch)
     = (path_exists env (abspath env path) \<and> md5_given game_md5
        \<and> get_file_md5 env (abspath env path) \<noteq> game_md5)
   \<and> (fst (start_game env st path game_md5) = IntegrityMismatch \<longrightarrow>
        GAME_PROCESSES (snd (start_game env st path game_md5)) = GAME_PROCESSES st
        \<and> effects (snd (start_game env st path game_md5)) = effects st @ [ShowError])
   \<and> (\<not> md5_given game_md5 \<longrightarrow>
        start_game (env\<lparr>md5_hexdigest := h\<rparr>) st path game_md5
          = start_game env st path game_md5)"
  by (auto simp: start_game_def Let_def did_def IntegrityMismatch_def get_file_md5_def
      split: option.splits sum.splits)

theorem integrity_mismatch_blocks_launch_witness:
  "start_game two_files idle ''/games/foo.exe'' (Some ''0cc175b9'')
     = (IntegrityMismatch, \<lparr>GAME_PROCESSES = [], effects = [ShowError]\<rparr>)
   \<and> start_game (two_files\<lparr>md5_hexdigest := (\<lambda>p. None)\<rparr>) idle ''/games/foo.exe'' None
     = start_game two_files idle ''/games/foo.exe'' None
   \<and> fst (start_game two_files idle ''/games/foo.exe'' None) = Started"
proof -
  have g: "path_exists two_files (abspath two_files ''/games/foo.exe'')
      \<and> md5_given (Some ''0cc175b9'')
      \<and> get_file_md5 two_files (abspath two_files ''/games/foo.exe'') \<noteq> Some ''0cc175b9''"
    by (simp add: launch_defs)
  have n: "\<not> md5_given None" by simp
  note t1 = integrity_mismatch_blocks_launch
      [of two_files idle "''/games/foo.exe''" "Some ''0cc175b9''"]
  note t2 = integrity_mismatch_blocks_launch
      [of two_files idle "''/games/foo.exe''" None "\<lambda>p. None"]
  from t1 g have "fst (start_game two_files idle ''/games/foo.exe'' (Some ''0cc175b9''))
      = IntegrityMismatch" by blast
  with t1 have "start_game two_files idle ''/games/foo.exe'' (Some ''0cc175b9'')
     = (IntegrityMismatch, \<lparr>GAME_PROCESSES = [], effects = [ShowError]\<rparr>)"
    by (simp add: prod_eq_iff idle_def)
  moreover from t2 n have "start_game (two_files\<lparr>md5_hexdigest := (\<lambda>p. None)\<rparr>) idle ''/games/foo.exe'' None
     = start_game two_files idle ''/games/foo.exe'' None" by blast
  moreover have "fst (start_game two_files idle ''/games/foo.exe'' None) = Started"
    by (simp add: launch_defs)
  ultimately show ?thesis by blast
qed

section \<open>C6: dispatch by file kind\<close>

text \<open>
  C6, as amended. For an existing path that passes the integrity check: when the
  lower-cased extension is \<^verbatim>\<open>.html\<close> and the browser call does not raise, the page
  \<^verbatim>\<open>file:///\<close> + path is opened, nothing is added to the process registry and the result
  is \<open>Started\<close>; for any other path, when \<^verbatim>\<open>Popen\<close> gives a handle, the one call made is
  \<^verbatim>\<open>Popen([path], cwd=dirname(path))\<close>, the handle is appended to the registry and the
  result is \<open>Started\<close>. When the call raises, the result is \<open>LaunchFailed\<close> and the
  registry is unchanged.
\<close>

theorem launch_dispatch:
  assumes "game_path = abspath env path"
    and "path_exists env game_path"
    and "\<not> md5_given game_md5 \<or> get_file_md5 env game_path = game_md5"
  shows "(str_lower env (snd (splitext env game_path)) = ''.html'' \<longrightarrow>
           (open_new_tab env (''file:///'' @ game_path) = None \<longrightarrow>
              start_game env st path game_md5
                = (Started, st\<lparr>effects := effects st @ [OpenTab (''file:///'' @ game_path)]\<rparr>))
         \<and> (open_new_tab env (''file:///'' @ game_path) \<noteq> None \<longrightarrow>
              fst (start_game env st path game_md5) = LaunchFailed
              \<and> GAME_PROCESSES (snd (start_game env st path game_md5)) = GAME_PROCESSES st))
       \<and> (str_lower env (snd (splitext env game_path)) \<noteq> ''.html'' \<longrightarrow>
           (\<forall>proc. Popen env [game_path] (dirname env game_path) = Inr proc \<longrightarrow>
              start_game env st path game_md5
                = (Started,
                   st\<lparr>effects := effects st @ [PopenCall [game_path] (dirname env game_path)],
                      GAME_PROCESSES := GAME_PROCESSES st @ [proc]\<rparr>))
         \<and> (\<forall>e. Popen env [game_path] (dirname env game_path) = Inl e \<longrightarrow>
              fst (start_game env st path game_md5) = LaunchFailed
              \<and> GAME_PROCESSES (snd (start_game env st path game_md5)) = GAME_PROCESSES st))"
  using assms
  by (auto simp: start_game_def Let_def did_def Started_def LaunchFailed_def
      split: option.splits sum.splits)

theorem launch_dispatch_witness:
  "start_game two_files idle ''/games/bar.html'' (Some ''0cc175b9'')
     = (Started, \<lparr>GAME_PROCESSES = [], effects = [OpenTab ''file:////games/bar.html'']\<rparr>)
   \<and> start_game two_files idle ''/games/foo.exe'' None
     = (Started, \<lparr>GAME_PROCESSES = [4242],
                  effects = [PopenCall [''/games/foo.exe''] ''/games'']\<rparr>)
   \<and> fst (start_game no_exec idle ''/games/foo.exe'' None) = LaunchFailed
   \<and> GAME_PROCESSES (snd (start_game no_exec idle ''/games/foo.exe'' None)) = []"
proof -
  have a: "''/games/bar.html'' = abspath two_files ''/games/bar.html''"
          "path_exists two_files ''/games/bar.html''"
          "\<not> md5_given (Some ''0cc175b9'')
             \<or> get_file_md5 two_files ''/games/bar.html'' = Some ''0cc175b9''"
          "str_lower two_files (snd (splitext two_files ''/games/bar.html'')) = ''.html''"
          "open_new_tab two_files (''file:///'' @ ''/games/bar.html'') = None"
    by (simp_all add: launch_defs)
  have b: "''/games/foo.exe'' = abspath two_files ''/games/foo.exe''"
          "path_exists two_files ''/games/foo.exe''"
          "\<not> md5_given None \<or> get_file_md5 two_files ''/games/foo.exe'' = None"
          "str_lower two_files (snd (splitext two_files ''/games/foo.exe'')) \<noteq> ''.html''"
          "Popen two_files [''/games/foo.exe''] (dirname two_files ''/games/foo.exe'') = Inr 4242"
          "dirname two_files ''/games/foo.exe'' = ''/games''"
    by (simp_all add: launch_defs)
  have c: "''/games/foo.exe'' = abspath no_exec ''/games/foo.exe''"
          "path_exists no_exec ''/games/foo.exe''"
          "\<not> md5_given None \<or> get_file_md5 no_exec ''/games/foo.exe'' = None"
          "str_lower no_exec (snd (splitext no_exec ''/games/foo.exe'')) \<noteq> ''.html''"
          "Popen no_exec [''/games/foo.exe''] (dirname no_exec ''/games/foo.exe'')
             = Inl PermissionError"
    by (simp_all add: launch_defs)
  from launch_dispatch[OF a(1,2,3), of idle] a(4,5)
  have 1: "start_game two_files idle ''/games/bar.html'' (Some ''0cc175b9'')
     = (Started, \<lparr>GAME_PROCESSES = [], effects = [OpenTab ''file:////games/bar.html'']\<rparr>)"
    by (simp add: idle_def)
  from launch_dispatch[OF b(1,2,3), of idle] b(4,5,6)
  have 2: "start_game two_files idle ''/games/foo.exe'' None
     = (Started, \<lparr>GAME_PROCESSES = [4242],
                  effects = [PopenCall [''/games/foo.exe''] ''/games'']\<rparr>)"
    by (simp add: idle_def)
  from launch_dispatch[OF c(1,2,3), of idle] c(4,5)
  have 3: "fst (start_game no_exec idle ''/games/foo.exe'' None) = LaunchFailed
   \<and> GAME_PROCESSES (snd (start_game no_exec idle ''/games/foo.exe'' None)) = []"
    by (simp add: idle_def)
  from 1 2 3 show ?thesis by blast
qed

theorem launch_dispatch_counterexample:
  "\<not> (\<forall>env st path game_md5.
        path_exists env (abspath env path) \<longrightarrow>
        (\<not> md5_given game_md5 \<or> get_file_md5 env (abspath env path) = game_md5) \<longrightarrow>
        fst (start_game env st path game_md5) = Started)"
proof
  assume a: "\<forall>env st path game_md5.
        path_exists env (abspath env path) \<longrightarrow>
        (\<not> md5_given game_md5 \<or> get_file_md5 env (abspath env path) = game_md5) \<longrightarrow>
        fst (start_game env st path game_md5) = Started"
  have "path_exists no_exec (abspath no_exec ''/games/foo.exe'')"
    by (simp add: launch_defs)
  moreover have "\<not> md5_given None" by simp
  ultimately have "fst (start_game no_exec idle ''/games/foo.exe'' None) = Started"
    using a by blast
  then show False by (simp add: launch_defs)
qed

section \<open>C3: deleting a game\<close>

lemma length_filter_eq_iff:
  "length (filter P xs) = length xs \<longleftrightarrow> (\<forall>x\<in>set xs. P x)"
  by (metis filter_id_conv length_filter_less less_irrefl)

lemma heal_games_length [simp]: "length (heal_games uuids games) = length games"
  by (simp add: heal_games_def)

lemma heal_games_nth:
  "i < length games \<Longrightarrow> heal_games uuids games ! i = heal (uuids i) (games ! i)"
  by (simp add: heal_games_def nth_enumerate_eq)

lemma id_of_heal:
  "id_of (heal u g) = (case map_of g ''id'' of None \<Rightarrow> JStr u | Some v \<Rightarrow> v)"
  by (simp add: id_of_def heal_def dict_get_def)

lemma id_of_heal_stored:
  "map_of g ''id'' \<noteq> None \<Longrightarrow> id_of (heal u g) = id_of g"
  by (auto simp: id_of_def heal_def dict_get_def)

lemma load_games_world: "fst (snd (load_games w uuids)) = w"
  by (simp add: load_games_def split: file_state.splits)

lemma load_games_listing_subset:
  "set (snd (snd (load_games w uuids))) \<subseteq> set (heal_games uuids (stored_games w))"
  by (simp add: load_games_def stored_games_def split: file_state.splits)

lemma delete_game_NotFound:
  assumes "lock_free w" "games_file w = Absent \<or> games_file w = Catalog (stored_games w)"
    and "\<forall>g\<in>set (stored_games w). \<not> py_eq (id_of g) sid"
  shows "delete_game w sid = (NotFound, w)"
proof -
  have "length (filter (\<lambda>g. \<not> py_eq (id_of g) sid) (stored_games w)) = length (stored_games w)"
    using assms(3) by (simp add: length_filter_eq_iff)
  then show ?thesis using assms(1,2)
    by (cases "games_file w") (auto simp: delete_game_def stored_games_def id_of_def Let_def)
qed

lemma delete_game_found:
  assumes "lock_free w" "games_file w = Catalog games"
    and "\<exists>g\<in>set games. py_eq (id_of g) sid"
  shows "delete_game w sid = write_games w (filter (\<lambda>g. \<not> py_eq (id_of g) sid) games)"
proof -
  have "length (filter (\<lambda>g. \<not> py_eq (id_of g) sid) games) \<noteq> length games"
    using assms(3) by (simp add: length_filter_eq_iff)
  then show ?thesis using assms(1,2)
    by (simp add: delete_game_def id_of_def Let_def)
qed

text \<open>
  C3. A \<open>delete_game\<close> that succeeds saves the stored games without those whose id
  equals the given id, the others unchanged and in order; no game that a later
  \<open>load_games\<close> lists then has that id (the ids it draws for games stored without one
  being fresh, that is, different from the deleted id). With a readable or absent catalog
  in which no game has the id, \<open>delete_game\<close> gives \<open>NotFound\<close> and the world - the
  catalog file with it - is unchanged; and every \<open>NotFound\<close> leaves the world unchanged.
  With a game of that id in the catalog, the result is that of writing the remaining
  games: the deletion succeeds when the write goes through.
\<close>

theorem delete_game_removes:
  "(delete_game w sid = (Done, w') \<longrightarrow>
      w' = w\<lparr>games_file := Catalog (filter (\<lambda>g. \<not> py_eq (id_of g) sid) (stored_games w))\<rparr>
      \<and> ((\<forall>i. \<not> py_eq (JStr (uuids i)) sid) \<longrightarrow>
           (\<forall>r\<in>set (snd (snd (load_games w' uuids))). \<not> py_eq (id_of r) sid)))
   \<and> (lock_free w \<and> (games_file w = Absent \<or> games_file w = Catalog (stored_games w))
        \<and> (\<forall>g\<in>set (stored_games w). \<not> py_eq (id_of g) sid) \<longrightarrow>
      delete_game w sid = (NotFound, w))
   \<and> (delete_game w sid = (NotFound, w') \<longrightarrow> w' = w)
   \<and> (lock_free w \<and> games_file w = Catalog games
        \<and> (\<exists>g\<in>set games. py_eq (id_of g) sid) \<longrightarrow>
      delete_game w sid = write_games w (filter (\<lambda>g. \<not> py_eq (id_of g) sid) games)
      \<and> (file_write w = Writes \<longrightarrow> fst (delete_game w sid) = Done))"
proof -
  have 1: "\<forall>r\<in>set (snd (snd (load_games w' uuids))). \<not> py_eq (id_of r) sid"
    if d: "delete_game w sid = (Done, w')" and fresh: "\<forall>i. \<not> py_eq (JStr (uuids i)) sid"
  proof
    fix r assume "r \<in> set (snd (snd (load_games w' uuids)))"
    then have "r \<in> set (heal_games uuids (stored_games w'))"
      using load_games_listing_subset by blast
    then obtain i where i: "i < length (stored_games w')"
      "r = heal (uuids i) (stored_games w' ! i)"
      by (auto simp: in_set_conv_nth heal_games_nth)
    let ?g = "stored_games w' ! i"
    have "?g \<in> set (stored_games w')" using i(1) by simp
    then have keep: "\<not> py_eq (id_of ?g) sid"
      using delete_game_Done[OF d] by simp
    show "\<not> py_eq (id_of r) sid"
    proof (cases "map_of ?g ''id''")
      case None
      then show ?thesis using fresh i(2) by (simp add: id_of_heal)
    next
      case (Some v)
      then show ?thesis using keep i(2) by (simp add: id_of_heal_stored)
    qed
  qed
  have 2: "w' = w" if "delete_game w sid = (NotFound, w')"
    using that by (rule delete_game_NotFound_same)
  have 3: "delete_game w sid = write_games w (filter (\<lambda>g. \<not> py_eq (id_of g) sid) games)
      \<and> (file_write w = Writes \<longrightarrow> fst (delete_game w sid) = Done)"
    if "lock_free w" "games_file w = Catalog games"
      "\<exists>g\<in>set games. py_eq (id_of g) sid"
    using delete_game_found[OF that] by (simp add: write_games_def)
  show ?thesis
    using 1 2 3 delete_game_Done delete_game_NotFound by blast
qed

theorem delete_game_removes_witness:
  "delete_game (open_world [foo_game, bar_game]) (JStr ''a'') = (Done, open_world [bar_game])
   \<and> list_all (\<lambda>r. \<not> py_eq (id_of r) (JStr ''a''))
        (snd (snd (load_games (open_world [bar_game]) (\<lambda>i. ''fresh''))))
   \<and> snd (snd (load_games (open_world [bar_game]) (\<lambda>i. ''fresh''))) = [bar_game]
   \<and> delete_game (open_world [foo_game, bar_game]) (JStr ''zz'')
       = (NotFound, open_world [foo_game, bar_game])"
proof -
  let ?w = "open_world [foo_game, bar_game]"
  let ?w' = "open_world [bar_game]"
  let ?u = "\<lambda>i::nat. ''fresh''"
  have d: "delete_game ?w (JStr ''a'') = (Done, ?w')"
    by (simp add: eval_defs)
  have f: "\<forall>i. \<not> py_eq (JStr (?u i)) (JStr ''a'')"
    by (simp add: py_eq_def)
  from delete_game_removes[of ?w "JStr ''a''" ?w' ?u "[foo_game, bar_game]"] d f
  have "\<forall>r\<in>set (snd (snd (load_games ?w' ?u))). \<not> py_eq (id_of r) (JStr ''a'')"
    by blast
  then have l: "list_all (\<lambda>r. \<not> py_eq (id_of r) (JStr ''a'')) (snd (snd (load_games ?w' ?u)))"
    by (simp add: list_all_iff)
  have e: "snd (snd (load_games ?w' ?u)) = [bar_game]"
    by (simp add: eval_defs)
  have n: "lock_free ?w \<and> (games_file ?w = Absent \<or> games_file ?w = Catalog (stored_games ?w))
        \<and> (\<forall>g\<in>set (stored_games ?w). \<not> py_eq (id_of g) (JStr ''zz''))"
    by (simp add: eval_defs)
  from delete_game_removes[of ?w "JStr ''zz''" ?w' ?u "[foo_game, bar_game]"] n
  have "delete_game ?w (JStr ''zz'') = (NotFound, ?w)"
    by blast
  with d l e show ?thesis by blast
qed

section \<open>C9: selecting an id that no game has\<close>

lemma mark_selected_no_match:
  "\<not> py_eq (id_of g) sid \<Longrightarrow> mark_selected sid g = dict_set ''is_last_selected'' (JBool False) g"
  by (simp add: mark_selected_def id_of_def)

lemma save_and_close_writes:
  assumes "lock_free w" "games_file w = Catalog games"
  shows "save_and_close w sid = write_games w (map (mark_selected sid) games)"
  using assms by (simp add: save_and_close_def)

text \<open>
  C9. \<open>save_and_close\<close> never gives \<open>NotFound\<close>. With the lock free and a catalog in
  which no game has the selected id, its result is that of writing the stored games back
  with the selection flag of every game set to false; when the write goes through it
  succeeds, and no game of the written catalog is selected, whatever was selected before.
\<close>

theorem select_unknown_id_deselects_all:
  "fst (save_and_close w sid) \<noteq> NotFound
   \<and> (lock_free w \<and> games_file w = Catalog games
        \<and> (\<forall>g\<in>set games. \<not> py_eq (id_of g) sid) \<longrightarrow>
      save_and_close w sid
        = write_games w (map (dict_set ''is_last_selected'' (JBool False)) games)
      \<and> (file_write w = Writes \<longrightarrow>
           save_and_close w sid
             = (Done, w\<lparr>games_file :=
                         Catalog (map (dict_set ''is_last_selected'' (JBool False)) games)\<rparr>)
           \<and> (\<forall>g\<in>set (stored_games (snd (save_and_close w sid))). \<not> is_last_selected g)))"
proof -
  have 1: "fst (save_and_close w sid) \<noteq> NotFound"
    by (auto simp: save_and_close_def write_games_def
        split: file_state.splits write_mode.splits)
  have 2: "save_and_close w sid
        = write_games w (map (dict_set ''is_last_selected'' (JBool False)) games)"
    if h: "lock_free w" "games_file w = Catalog games"
      and no: "\<forall>g\<in>set games. \<not> py_eq (id_of g) sid"
  proof -
    have eq: "map (mark_selected sid) games
        = map (dict_set ''is_last_selected'' (JBool False)) games"
      using no by (simp add: mark_selected_no_match)
    show ?thesis by (simp only: save_and_close_writes[OF h] eq)
  qed
  have 3: "save_and_close w sid
             = (Done, w\<lparr>games_file :=
                         Catalog (map (dict_set ''is_last_selected'' (JBool False)) games)\<rparr>)"
    if h: "lock_free w" "games_file w = Catalog games"
      and no: "\<forall>g\<in>set games. \<not> py_eq (id_of g) sid" and wr: "file_write w = Writes"
    using 2[OF h no] wr by (simp add: write_games_def)
  have 4: "\<forall>g\<in>set (stored_games (snd (save_and_close w sid))). \<not> is_last_selected g"
    if h: "lock_free w" "games_file w = Catalog games"
      and no: "\<forall>g\<in>set games. \<not> py_eq (id_of g) sid" and wr: "file_write w = Writes"
    using 3[OF that] by (simp add: is_last_selected_def dict_get_dict_set)
  from 1 2 3 4 show ?thesis by blast
qed

theorem select_unknown_id_deselects_all_witness:
  "is_last_selected (mark_selected (JStr ''a'') foo_game)
   \<and> save_and_close (open_world [mark_selected (JStr ''a'') foo_game, bar_game]) (JStr ''zz'')
     = (Done, open_world [foo_game, bar_game])
   \<and> list_all (\<lambda>g. \<not> is_last_selected g) [foo_game, bar_game]"
proof -
  let ?games = "[mark_selected (JStr ''a'') foo_game, bar_game]"
  let ?w = "open_world ?games"
  have h: "lock_free ?w \<and> games_file ?w = Catalog ?games
        \<and> (\<forall>g\<in>set ?games. \<not> py_eq (id_of g) (JStr ''zz''))"
    by (simp add: eval_defs)
  have wr: "file_write ?w = Writes" by (simp add: open_world_def)
  from select_unknown_id_deselects_all[of ?w "JStr ''zz''" ?games] h wr
  have "save_and_close ?w (JStr ''zz'')
        = (Done, ?w\<lparr>games_file :=
                    Catalog (map (dict_set ''is_last_selected'' (JBool False)) ?games)\<rparr>)"
    by blast
  moreover have "?w\<lparr>games_file :=
                    Catalog (map (dict_set ''is_last_selected'' (JBool False)) ?games)\<rparr>
       = open_world [foo_game, bar_game]"
    by (simp add: eval_defs)
  moreover have "is_last_selected (mark_selected (JStr ''a'') foo_game)"
    by (simp add: eval_defs)
  moreover have "list_all (\<lambda>g. \<not> is_last_selected g) [foo_game, bar_game]"
    by (simp add: eval_defs)
  ultimately show ?thesis by simp
qed

section \<open>C4: the listing\<close>

lemma heal_keys: "map fst (heal u g) = game_fields"
  by (simp add: heal_def game_fields_def)

lemma heal_keeps:
  assumes "k \<in> set game_fields" "map_of g k = Some v"
  shows "map_of (heal u g) k = Some v"
proof -
  from assms(1) consider "k = ''id''" | "k = ''name''" | "k = ''path''" | "k = ''md5''"
    | "k = ''is_last_selected''"
    unfolding game_fields_def by fastforce
  then show ?thesis
  proof cases
    case 1 with assms(2) show ?thesis by (simp add: heal_def dict_get_def)
  next
    case 2 with assms(2) show ?thesis by (simp add: heal_def dict_get_def)
  next
    case 3 with assms(2) show ?thesis by (simp add: heal_def dict_get_def)
  next
    case 4 with assms(2) show ?thesis by (simp add: heal_def dict_get_def)
  next
    case 5 with assms(2) show ?thesis by (simp add: heal_def dict_get_def)
  qed
qed

lemma heal_defaults:
  "map_of g ''id'' = None \<Longrightarrow> map_of (heal u g) ''id'' = Some (JStr u)"
  "map_of g ''name'' = None \<Longrightarrow> map_of (heal u g) ''name'' = Some (JStr unknown_game)"
  "map_of g ''path'' = None \<Longrightarrow> map_of (heal u g) ''path'' = Some (JStr [])"
  "map_of g ''md5'' = None \<Longrightarrow> map_of (heal u g) ''md5'' = Some JNull"
  "map_of g ''is_last_selected'' = None \<Longrightarrow>
     map_of (heal u g) ''is_last_selected'' = Some (JBool False)"
  by (simp_all add: heal_def dict_get_def)

lemma is_last_selected_heal: "is_last_selected (heal u g) = is_last_selected g"
  by (simp add: is_last_selected_def heal_def dict_get_def)

lemma not_last_selected_heal: "not_last_selected (heal u g) = (\<not> is_last_selected g)"
  by (simp add: not_last_selected_def is_last_selected_def heal_def dict_get_def)

lemma not_last_selected_healed:
  "r \<in> set (heal_games uuids games) \<Longrightarrow> not_last_selected r = (\<not> is_last_selected r)"
  by (auto simp: in_set_conv_nth heal_games_nth not_last_selected_heal is_last_selected_heal)

lemma load_games_Catalog:
  assumes "games_file w = Catalog games" "lock_free w"
  shows "load_games w uuids
       = (Done, w, filter is_last_selected (heal_games uuids games)
                   @ filter (\<lambda>r. \<not> is_last_selected r) (heal_games uuids games))"
proof -
  let ?h = "heal_games uuids games"
  have "filter (\<lambda>r. \<not> not_last_selected r) ?h = filter is_last_selected ?h"
    by (rule filter_cong) (simp_all add: not_last_selected_healed)
  moreover have "filter not_last_selected ?h = filter (\<lambda>r. \<not> is_last_selected r) ?h"
    by (rule filter_cong) (simp_all add: not_last_selected_healed)
  ultimately show ?thesis
    using assms by (simp add: load_games_def sort_key_bool)
qed

lemma filter_unique_index:
  assumes "k < length xs" "\<forall>j<length xs. P (xs ! j) = (j = k)"
  shows "filter P xs = [xs ! k]"
    and "filter (\<lambda>x. \<not> P x) xs = take k xs @ drop (Suc k) xs"
proof -
  have split: "xs = take k xs @ xs ! k # drop (Suc k) xs"
    using assms(1) by (rule id_take_nth_drop)
  have a: "\<forall>x\<in>set (take k xs). \<not> P x"
  proof
    fix x assume "x \<in> set (take k xs)"
    then obtain j where j: "j < length (take k xs)" "x = take k xs ! j"
      by (metis in_set_conv_nth)
    then have "j < k" "j < length xs" "x = xs ! j" by simp_all
    with assms(2) show "\<not> P x" by simp
  qed
  have b: "\<forall>x\<in>set (drop (Suc k) xs). \<not> P x"
  proof
    fix x assume "x \<in> set (drop (Suc k) xs)"
    then obtain j where j: "j < length (drop (Suc k) xs)" "x = drop (Suc k) xs ! j"
      by (metis in_set_conv_nth)
    then have "Suc k + j < length xs" "x = xs ! (Suc k + j)" by simp_all
    with assms(2) show "\<not> P x" by simp
  qed
  have c: "P (xs ! k)" using assms by simp
  have fa: "filter P (take k xs) = []" "filter P (drop (Suc k) xs) = []"
    using a b by (simp_all add: filter_empty_conv)
  have fb: "filter (\<lambda>x. \<not> P x) (take k xs) = take k xs"
    "filter (\<lambda>x. \<not> P x) (drop (Suc k) xs) = drop (Suc k) xs"
    using a b by (simp_all add: filter_id_conv)
  have "filter P xs = filter P (take k xs @ xs ! k # drop (Suc k) xs)"
    by (rule arg_cong[OF split])
  also have "\<dots> = [xs ! k]"
    by (simp only: filter_append filter.simps fa c if_True append_Nil append_Nil2)
  finally show "filter P xs = [xs ! k]" .
  have "filter (\<lambda>x. \<not> P x) xs
      = filter (\<lambda>x. \<not> P x) (take k xs @ xs ! k # drop (Suc k) xs)"
    by (rule arg_cong[OF split])
  also have "\<dots> = take k xs @ drop (Suc k) xs"
    using c by (simp only: filter_append filter.simps fb) simp
  finally show "filter (\<lambda>x. \<not> P x) xs = take k xs @ drop (Suc k) xs" .
qed

text \<open>
  C4. With the lock free, \<open>load_games\<close> on a stored catalog changes nothing and lists
  one healed game per stored game: the healed game at stored position \<open>i\<close> has exactly
  the five fields, each with the stored value when the stored game has the field, and
  otherwise the default (the drawn id, the placeholder name, the empty path, null hash,
  selection flag false). The listing is the healed games that are selected, in stored
  order, followed by all the others, in stored order; when exactly the stored game at
  position \<open>k\<close> is selected, it comes first and the others follow in stored order.
\<close>

theorem load_games_lists_selected_first:
  assumes "games_file w = Catalog games" and "lock_free w"
  shows "load_games w uuids
           = (Done, w, filter is_last_selected (heal_games uuids games)
                       @ filter (\<lambda>r. \<not> is_last_selected r) (heal_games uuids games))
       \<and> length (heal_games uuids games) = length games
       \<and> (\<forall>i<length games.
             heal_games uuids games ! i = heal (uuids i) (games ! i)
           \<and> map fst (heal (uuids i) (games ! i)) = game_fields
           \<and> is_last_selected (heal (uuids i) (games ! i)) = is_last_selected (games ! i)
           \<and> (\<forall>f\<in>set game_fields. \<forall>v. map_of (games ! i) f = Some v \<longrightarrow>
                map_of (heal (uuids i) (games ! i)) f = Some v)
           \<and> (map_of (games ! i) ''id'' = None \<longrightarrow>
                map_of (heal (uuids i) (games ! i)) ''id'' = Some (JStr (uuids i)))
           \<and> (map_of (games ! i) ''name'' = None \<longrightarrow>
                map_of (heal (uuids i) (games ! i)) ''name'' = Some (JStr unknown_game))
           \<and> (map_of (games ! i) ''path'' = None \<longrightarrow>
                map_of (heal (uuids i) (games ! i)) ''path'' = Some (JStr []))
           \<and> (map_of (games ! i) ''md5'' = None \<longrightarrow>
                map_of (heal (uuids i) (games ! i)) ''md5'' = Some JNull)
           \<and> (map_of (games ! i) ''is_last_selected'' = None \<longrightarrow>
                map_of (heal (uuids i) (games ! i)) ''is_last_selected'' = Some (JBool False)))
       \<and> (\<forall>k<length games.
             (\<forall>j<length games. is_last_selected (games ! j) = (j = k)) \<longrightarrow>
             snd (snd (load_games w uuids))
               = heal_games uuids games ! k
                 # take k (heal_games uuids games) @ drop (Suc k) (heal_games uuids games))"
proof -
  let ?h = "heal_games uuids games"
  have 1: "load_games w uuids
           = (Done, w, filter is_last_selected ?h @ filter (\<lambda>r. \<not> is_last_selected r) ?h)"
    using assms by (rule load_games_Catalog)
  have 2: "snd (snd (load_games w uuids)) = ?h ! k # take k ?h @ drop (Suc k) ?h"
    if k: "k < length games" and u: "\<forall>j<length games. is_last_selected (games ! j) = (j = k)"
    for k
  proof -
    have "\<forall>j<length ?h. is_last_selected (?h ! j) = (j = k)"
      using u by (simp add: heal_games_nth is_last_selected_heal)
    moreover have "k < length ?h" using k by simp
    ultimately have "filter is_last_selected ?h = [?h ! k]"
      "filter (\<lambda>r. \<not> is_last_selected r) ?h = take k ?h @ drop (Suc k) ?h"
      by (rule filter_unique_index[rotated])+
    with 1 show ?thesis by simp
  qed
  have 3: "length ?h = length games" by simp
  have 4: "\<forall>i<length games.
             heal_games uuids games ! i = heal (uuids i) (games ! i)
           \<and> map fst (heal (uuids i) (games ! i)) = game_fields
           \<and> is_last_selected (heal (uuids i) (games ! i)) = is_last_selected (games ! i)
           \<and> (\<forall>f\<in>set game_fields. \<forall>v. map_of (games ! i) f = Some v \<longrightarrow>
                map_of (heal (uuids i) (games ! i)) f = Some v)
           \<and> (map_of (games ! i) ''id'' = None \<longrightarrow>
                map_of (heal (uuids i) (games ! i)) ''id'' = Some (JStr (uuids i)))
           \<and> (map_of (games ! i) ''name'' = None \<longrightarrow>
                map_of (heal (uuids i) (games ! i)) ''name'' = Some (JStr unknown_game))
           \<and> (map_of (games ! i) ''path'' = None \<longrightarrow>
                map_of (heal (uuids i) (games ! i)) ''path'' = Some (JStr []))
           \<and> (map_of (games ! i) ''md5'' = None \<longrightarrow>
                map_of (heal (uuids i) (games ! i)) ''md5'' = Some JNull)
           \<and> (map_of (games ! i) ''is_last_selected'' = None \<longrightarrow>
                map_of (heal (uuids i) (games ! i)) ''is_last_selected'' = Some (JBool False))"
    by (intro allI impI conjI ballI)
      (simp_all add: heal_games_nth heal_keys is_last_selected_heal heal_keeps heal_defaults)
  have 5: "\<forall>k<length games.
             (\<forall>j<length games. is_last_selected (games ! j) = (j = k)) \<longrightarrow>
             snd (snd (load_games w uuids))
               = heal_games uuids games ! k
                 # take k (heal_games uuids games) @ drop (Suc k) (heal_games uuids games)"
    using 2 by blast
  show ?thesis
    apply (intro conjI)
       apply (rule 1)
      apply (rule 3)
     apply (rule 4)
    apply (rule 5)
    done
qed


theorem load_games_lists_selected_first_witness:
  "load_games (open_world [bare_game, legacy_game, foo_game]) (\<lambda>i. ''u'')
     = (Done, open_world [bare_game, legacy_game, foo_game],
        [[(''id'', JStr ''u''), (''name'', JStr ''Old''), (''path'', JStr ''/games/old.exe''),
          (''md5'', JNull), (''is_last_selected'', JBool True)],
         [(''id'', JStr ''u''), (''name'', JStr unknown_game), (''path'', JStr ''/games/bare.exe''),
          (''md5'', JNull), (''is_last_selected'', JBool False)],
         foo_game])"
proof -
  let ?games = "[bare_game, legacy_game, foo_game]"
  let ?w = "open_world ?games"
  let ?u = "\<lambda>i::nat. ''u''"
  have h: "games_file ?w = Catalog ?games" "lock_free ?w"
    by (simp_all add: open_world_def)
  note t = load_games_lists_selected_first[OF h, of ?u]
  have one: "\<forall>j<length ?games. is_last_selected (?games ! j) = (j = 1)"
    by (simp add: eval_defs less_Suc_eq nth_Cons')
  have "(1::nat) < length ?games" by simp
  with t one have "snd (snd (load_games ?w ?u))
      = heal_games ?u ?games ! 1 # take 1 (heal_games ?u ?games) @ drop (Suc 1) (heal_games ?u ?games)"
    by blast
  moreover from t have "fst (load_games ?w ?u) = Done" "fst (snd (load_games ?w ?u)) = ?w"
    by simp_all
  moreover have "heal_games ?u ?games =
        [[(''id'', JStr ''u''), (''name'', JStr unknown_game), (''path'', JStr ''/games/bare.exe''),
          (''md5'', JNull), (''is_last_selected'', JBool False)],
         [(''id'', JStr ''u''), (''name'', JStr ''Old''), (''path'', JStr ''/games/old.exe''),
          (''md5'', JNull), (''is_last_selected'', JBool True)],
         foo_game]"
    by (simp add: heal_games_def heal_def dict_get_def bare_game_def legacy_game_def
        foo_game_def new_game_def)
  ultimately show ?thesis by (simp add: prod_eq_iff)
qed

section \<open>C5: what is saved is what is loaded\<close>







section \<open>C10: healed ids are not persisted\<close>

lemma load_games_as_map:
  assumes "games_file w = Catalog games" "lock_free w"
  shows "snd (snd (load_games w uuids))
       = map (\<lambda>p. heal (uuids (fst p)) (snd p))
           (filter (\<lambda>p. is_last_selected (snd p)) (enumerate 0 games)
            @ filter (\<lambda>p. \<not> is_last_selected (snd p)) (enumerate 0 games))"
  using load_games_Catalog[OF assms, of uuids]
  by (simp add: heal_games_def filter_map comp_def case_prod_unfold is_last_selected_heal)

lemma healed_listed:
  assumes "games_file w = Catalog games" "lock_free w" "i < length games"
  shows "heal (uuids i) (games ! i) \<in> set (snd (snd (load_games w uuids)))"
proof -
  have "heal_games uuids games ! i \<in> set (heal_games uuids games)"
    using assms(3) by simp
  then show ?thesis
    using load_games_Catalog[OF assms(1,2), of uuids] assms(3)
    by (auto simp: heal_games_nth)
qed

lemma listings_differ:
  assumes "games_file w = Catalog games" "lock_free w" "i < length games"
    and "map_of (games ! i) ''id'' = None" "uuids' i \<noteq> uuids i"
  shows "snd (snd (load_games w uuids')) \<noteq> snd (snd (load_games w uuids))"
proof
  let ?P = "filter (\<lambda>p. is_last_selected (snd p)) (enumerate 0 games)
            @ filter (\<lambda>p. \<not> is_last_selected (snd p)) (enumerate 0 games)"
  assume "snd (snd (load_games w uuids')) = snd (snd (load_games w uuids))"
  then have "map (\<lambda>p. heal (uuids' (fst p)) (snd p)) ?P
           = map (\<lambda>p. heal (uuids (fst p)) (snd p)) ?P"
    by (simp only: load_games_as_map[OF assms(1,2)])
  then have all: "\<forall>p\<in>set ?P. heal (uuids' (fst p)) (snd p) = heal (uuids (fst p)) (snd p)"
    by (simp only: map_eq_conv)
  have "(i, games ! i) \<in> set (enumerate 0 games)"
    using assms(3) by (simp add: in_set_enumerate_eq)
  then have "(i, games ! i) \<in> set ?P" by auto
  with all have "heal (uuids' i) (games ! i) = heal (uuids i) (games ! i)"
    by fastforce
  then have "id_of (heal (uuids' i) (games ! i)) = id_of (heal (uuids i) (games ! i))"
    by simp
  with assms(4,5) show False by (simp add: id_of_heal)
qed

text \<open>
  C10. \<open>load_games\<close> returns the world it was given: it never writes the catalog file.
  For a stored game without an id, at position \<open>i\<close> of a catalog that can be read, the
  listing holds the healed game whose id is the string drawn for it, while the stored
  game still has no id; so a second \<open>load_games\<close> on the world the first one left, with
  a different string drawn at \<open>i\<close>, returns a different listing.
\<close>

theorem load_games_never_writes:
  "fst (snd (load_games w uuids)) = w
   \<and> (games_file w = Catalog games \<and> lock_free w \<and> i < length games
        \<and> map_of (games ! i) ''id'' = None \<longrightarrow>
        heal (uuids i) (games ! i) \<in> set (snd (snd (load_games w uuids)))
        \<and> id_of (heal (uuids i) (games ! i)) = JStr (uuids i)
        \<and> map_of (stored_games (fst (snd (load_games w uuids))) ! i) ''id'' = None
        \<and> (uuids' i \<noteq> uuids i \<longrightarrow>
             snd (snd (load_games (fst (snd (load_games w uuids))) uuids'))
               \<noteq> snd (snd (load_games w uuids))))"
proof -
  have 1: "fst (snd (load_games w uuids)) = w" by (rule load_games_world)
  have 2: "heal (uuids i) (games ! i) \<in> set (snd (snd (load_games w uuids)))
        \<and> id_of (heal (uuids i) (games ! i)) = JStr (uuids i)
        \<and> map_of (stored_games (fst (snd (load_games w uuids))) ! i) ''id'' = None
        \<and> (uuids' i \<noteq> uuids i \<longrightarrow>
             snd (snd (load_games (fst (snd (load_games w uuids))) uuids'))
               \<noteq> snd (snd (load_games w uuids)))"
    if h: "games_file w = Catalog games" "lock_free w" "i < length games"
      and n: "map_of (games ! i) ''id'' = None"
  proof (intro conjI impI)
    show "heal (uuids i) (games ! i) \<in> set (snd (snd (load_games w uuids)))"
      using h by (rule healed_listed)
    show "id_of (heal (uuids i) (games ! i)) = JStr (uuids i)"
      using n by (simp add: id_of_heal)
    show "map_of (stored_games (fst (snd (load_games w uuids))) ! i) ''id'' = None"
      using n h(1) by (simp add: 1 stored_games_def)
    assume "uuids' i \<noteq> uuids i"
    with h n show "snd (snd (load_games (fst (snd (load_games w uuids))) uuids'))
               \<noteq> snd (snd (load_games w uuids))"
      unfolding 1 by (rule listings_differ)
  qed
  from 1 2 show ?thesis by blast
qed

theorem load_games_never_writes_witness:
  "load_games (open_world [legacy_game]) (\<lambda>i. ''u1'')
     = (Done, open_world [legacy_game],
        [[(''id'', JStr ''u1''), (''name'', JStr ''Old''), (''path'', JStr ''/games/old.exe''),
          (''md5'', JNull), (''is_last_selected'', JBool True)]])
   \<and> snd (snd (load_games (fst (snd (load_games (open_world [legacy_game]) (\<lambda>i. ''u1''))))
                 (\<lambda>i. ''u2'')))
       \<noteq> snd (snd (load_games (open_world [legacy_game]) (\<lambda>i. ''u1'')))"
proof -
  let ?w = "open_world [legacy_game]"
  let ?u = "\<lambda>i::nat. ''u1''"
  let ?u' = "\<lambda>i::nat. ''u2''"
  have h: "games_file ?w = Catalog [legacy_game] \<and> lock_free ?w \<and> 0 < length [legacy_game]
        \<and> map_of ([legacy_game] ! 0) ''id'' = None"
    by (simp add: open_world_def legacy_game_def)
  have d: "?u' 0 \<noteq> ?u 0" by simp
  note t = load_games_never_writes[of ?w ?u "[legacy_game]" 0 ?u']
  from t h d have "snd (snd (load_games (fst (snd (load_games ?w ?u))) ?u'))
       \<noteq> snd (snd (load_games ?w ?u))"
    by blast
  moreover have "load_games ?w ?u
     = (Done, ?w,
        [[(''id'', JStr ''u1''), (''name'', JStr ''Old''), (''path'', JStr ''/games/old.exe''),
          (''md5'', JNull), (''is_last_selected'', JBool True)]])"
    by (simp add: eval_defs)
  ultimately show ?thesis by blast
qed

section \<open>C7: editing a game\<close>

lemma map_of_dict_set: "map_of (dict_set k v d) = (map_of d)(k \<mapsto> v)"
  by (simp add: dict_set_def update_conv')

lemma map_of_update_fields:
  "map_of (update_fields n p m g)
     = (map_of g)(''name'' \<mapsto> JStr n, ''path'' \<mapsto> JStr p, ''md5'' \<mapsto> opt_json m)"
  by (simp add: update_fields_def map_of_dict_set)

lemma is_last_selected_update_fields:
  "is_last_selected (update_fields n p m g) = is_last_selected g"
  by (simp add: is_last_selected_def update_fields_def dict_get_dict_set)

lemma save_settings_NotFound:
  assumes "n \<noteq> []" "p \<noteq> []" "path_exists env p" "lock_free w"
    and "games_file w = Absent \<or> games_file w = Catalog (stored_games w)"
    and "\<forall>g\<in>set (stored_games w). \<not> py_eq (id_of g) gid"
  shows "save_settings env w gid n p pr = (NotFound, w)"
proof -
  have "find_game gid (stored_games w) = None"
    using assms(6) by (simp add: find_game_None)
  then show ?thesis using assms(1-5)
    by (cases "games_file w") (auto simp: save_settings_def stored_games_def Let_def)
qed

lemma save_settings_NotFound_only:
  assumes "save_settings env w gid n p pr = (NotFound, w')"
  shows "\<forall>g\<in>set (stored_games w). \<not> py_eq (id_of g) gid"
proof -
  have "find_game gid (stored_games w) = None"
    using assms
    by (auto simp: save_settings_def write_games_def stored_games_def Let_def
        split: if_splits file_state.splits option.splits write_mode.splits)
  then show ?thesis by (simp add: find_game_None)
qed

text \<open>
  C7. A \<open>save_settings\<close> that succeeds has found the first stored game with the given
  id, at some position \<open>i\<close>, and writes the stored games with that one game changed:
  its name, path and hash fields hold the new name, the new path and the hash recomputed
  from the new path; every other field of it (its id and its selection flag among
  them) and every other game are as they were, and the catalog keeps its length. When no
  stored game has the id (the inputs being valid and the catalog readable or absent) the
  result is \<open>NotFound\<close>; a \<open>NotFound\<close> result means that no stored game has the id and
  leaves the world, the file with it, unchanged.
\<close>

theorem save_settings_frame:
  "(save_settings env w gid n p pr = (Done, w') \<longrightarrow>
      (\<exists>i<length (stored_games w).
          py_eq (id_of (stored_games w ! i)) gid
        \<and> (\<forall>j<i. \<not> py_eq (id_of (stored_games w ! j)) gid)
        \<and> w' = w\<lparr>games_file := Catalog ((stored_games w)
                    [i := update_fields n p (get_file_md5 env p) (stored_games w ! i)])\<rparr>
        \<and> length (stored_games w') = length (stored_games w)
        \<and> (\<forall>j<length (stored_games w). j \<noteq> i \<longrightarrow> stored_games w' ! j = stored_games w ! j)
        \<and> map_of (stored_games w' ! i) ''name'' = Some (JStr n)
        \<and> map_of (stored_games w' ! i) ''path'' = Some (JStr p)
        \<and> map_of (stored_games w' ! i) ''md5'' = Some (opt_json (get_file_md5 env p))
        \<and> (\<forall>f. f \<noteq> ''name'' \<and> f \<noteq> ''path'' \<and> f \<noteq> ''md5'' \<longrightarrow>
              map_of (stored_games w' ! i) f = map_of (stored_games w ! i) f)
        \<and> id_of (stored_games w' ! i) = id_of (stored_games w ! i)
        \<and> is_last_selected (stored_games w' ! i) = is_last_selected (stored_games w ! i)))
   \<and> (n \<noteq> [] \<and> p \<noteq> [] \<and> path_exists env p \<and> lock_free w
        \<and> (games_file w = Absent \<or> games_file w = Catalog (stored_games w))
        \<and> (\<forall>g\<in>set (stored_games w). \<not> py_eq (id_of g) gid) \<longrightarrow>
      save_settings env w gid n p pr = (NotFound, w))
   \<and> (save_settings env w gid n p pr = (NotFound, w') \<longrightarrow>
        w' = w \<and> (\<forall>g\<in>set (stored_games w). \<not> py_eq (id_of g) gid))"
proof -
  let ?gs = "stored_games w"
  let ?m = "get_file_md5 env p"
  have 1: "\<exists>i<length ?gs.
          py_eq (id_of (?gs ! i)) gid
        \<and> (\<forall>j<i. \<not> py_eq (id_of (?gs ! j)) gid)
        \<and> w' = w\<lparr>games_file := Catalog (?gs[i := update_fields n p ?m (?gs ! i)])\<rparr>
        \<and> length (stored_games w') = length ?gs
        \<and> (\<forall>j<length ?gs. j \<noteq> i \<longrightarrow> stored_games w' ! j = ?gs ! j)
        \<and> map_of (stored_games w' ! i) ''name'' = Some (JStr n)
        \<and> map_of (stored_games w' ! i) ''path'' = Some (JStr p)
        \<and> map_of (stored_games w' ! i) ''md5'' = Some (opt_json ?m)
        \<and> (\<forall>f. f \<noteq> ''name'' \<and> f \<noteq> ''path'' \<and> f \<noteq> ''md5'' \<longrightarrow>
              map_of (stored_games w' ! i) f = map_of (?gs ! i) f)
        \<and> id_of (stored_games w' ! i) = id_of (?gs ! i)
        \<and> is_last_selected (stored_games w' ! i) = is_last_selected (?gs ! i)"
    if d: "save_settings env w gid n p pr = (Done, w')"
  proof -
    from save_settings_Done[OF d] obtain i where
      f: "find_game gid ?gs = Some i" and
      w': "w' = w\<lparr>games_file := Catalog (?gs[i := update_fields n p ?m (?gs ! i)])\<rparr>"
      by blast
    from find_game_Some[OF f] have i: "i < length ?gs" "py_eq (id_of (?gs ! i)) gid"
      "\<forall>j<i. \<not> py_eq (id_of (?gs ! j)) gid" by simp_all
    have st: "stored_games w' = ?gs[i := update_fields n p ?m (?gs ! i)]"
      using w' by simp
    have at: "stored_games w' ! i = update_fields n p ?m (?gs ! i)"
      using st i(1) by simp
    have "length (stored_games w') = length ?gs" using st by simp
    moreover have "\<forall>j<length ?gs. j \<noteq> i \<longrightarrow> stored_games w' ! j = ?gs ! j"
      using st by simp
    moreover have "map_of (stored_games w' ! i) ''name'' = Some (JStr n)"
      "map_of (stored_games w' ! i) ''path'' = Some (JStr p)"
      "map_of (stored_games w' ! i) ''md5'' = Some (opt_json ?m)"
      unfolding at by (simp_all add: map_of_update_fields)
    moreover have "\<forall>f. f \<noteq> ''name'' \<and> f \<noteq> ''path'' \<and> f \<noteq> ''md5'' \<longrightarrow>
              map_of (stored_games w' ! i) f = map_of (?gs ! i) f"
      unfolding at by (simp add: map_of_update_fields)
    moreover have "id_of (stored_games w' ! i) = id_of (?gs ! i)"
      unfolding at by (rule id_of_update_fields)
    moreover have "is_last_selected (stored_games w' ! i) = is_last_selected (?gs ! i)"
      unfolding at by (rule is_last_selected_update_fields)
    ultimately show ?thesis using i w' by (intro exI[of _ i]) simp
  qed
  have 2: "w' = w" if "save_settings env w gid n p pr = (NotFound, w')"
    using that by (rule save_settings_NotFound_same)
  show ?thesis
  proof (intro conjI impI)
    assume "save_settings env w gid n p pr = (Done, w')"
    then show "\<exists>i<length ?gs.
          py_eq (id_of (?gs ! i)) gid
        \<and> (\<forall>j<i. \<not> py_eq (id_of (?gs ! j)) gid)
        \<and> w' = w\<lparr>games_file := Catalog (?gs[i := update_fields n p ?m (?gs ! i)])\<rparr>
        \<and> length (stored_games w') = length ?gs
        \<and> (\<forall>j<length ?gs. j \<noteq> i \<longrightarrow> stored_games w' ! j = ?gs ! j)
        \<and> map_of (stored_games w' ! i) ''name'' = Some (JStr n)
        \<and> map_of (stored_games w' ! i) ''path'' = Some (JStr p)
        \<and> map_of (stored_games w' ! i) ''md5'' = Some (opt_json ?m)
        \<and> (\<forall>f. f \<noteq> ''name'' \<and> f \<noteq> ''path'' \<and> f \<noteq> ''md5'' \<longrightarrow>
              map_of (stored_games w' ! i) f = map_of (?gs ! i) f)
        \<and> id_of (stored_games w' ! i) = id_of (?gs ! i)
        \<and> is_last_selected (stored_games w' ! i) = is_last_selected (?gs ! i)"
      by (rule 1)
  next
    assume "n \<noteq> [] \<and> p \<noteq> [] \<and> path_exists env p \<and> lock_free w
        \<and> (games_file w = Absent \<or> games_file w = Catalog (stored_games w))
        \<and> (\<forall>g\<in>set (stored_games w). \<not> py_eq (id_of g) gid)"
    then show "save_settings env w gid n p pr = (NotFound, w)"
      by (intro save_settings_NotFound) simp_all
  next
    assume "save_settings env w gid n p pr = (NotFound, w')"
    then show "w' = w" by (rule 2)
  next
    assume "save_settings env w gid n p pr = (NotFound, w')"
    then show "\<forall>g\<in>set (stored_games w). \<not> py_eq (id_of g) gid"
      by (rule save_settings_NotFound_only)
  qed
qed


theorem save_settings_frame_witness:
  "save_settings two_files (open_world [foo_game, bar_game]) (JStr ''b'') ''Baz''
       ''/games/foo.exe'' False
     = (Done, open_world [foo_game,
                          new_game ''b'' ''Baz'' ''/games/foo.exe'' (Some ''92eb5ffe'')])
   \<and> (\<exists>i<length (stored_games (open_world [foo_game, bar_game])).
         py_eq (id_of (stored_games (open_world [foo_game, bar_game]) ! i)) (JStr ''b'')
       \<and> id_of (stored_games (open_world [foo_game,
              new_game ''b'' ''Baz'' ''/games/foo.exe'' (Some ''92eb5ffe'')]) ! i)
           = id_of (stored_games (open_world [foo_game, bar_game]) ! i))
   \<and> save_settings two_files (open_world [foo_game, bar_game]) (JStr ''zz'') ''Baz''
       ''/games/foo.exe'' False
     = (NotFound, open_world [foo_game, bar_game])"
proof -
  let ?w = "open_world [foo_game, bar_game]"
  let ?w' = "open_world [foo_game, new_game ''b'' ''Baz'' ''/games/foo.exe'' (Some ''92eb5ffe'')]"
  have f: "find_game (JStr ''b'') [foo_game, bar_game] = Some 1"
    by (simp add: eval_defs)
  have d: "save_settings two_files ?w (JStr ''b'') ''Baz'' ''/games/foo.exe'' False = (Done, ?w')"
    unfolding save_settings_def Let_def
    by (simp add: two_files_def get_file_md5_def open_world_def f) (simp add: eval_defs)
  note t1 = save_settings_frame[of two_files ?w "JStr ''b''" "''Baz''" "''/games/foo.exe''"
      False ?w']
  note b = t1[THEN conjunct1, THEN mp, OF d]
  from b obtain i where i: "i < length (stored_games ?w)"
    "py_eq (id_of (stored_games ?w ! i)) (JStr ''b'')"
    "id_of (stored_games ?w' ! i) = id_of (stored_games ?w ! i)"
    by (elim exE conjE) (rule that, assumption+)
  then have e: "\<exists>i<length (stored_games ?w).
         py_eq (id_of (stored_games ?w ! i)) (JStr ''b'')
       \<and> id_of (stored_games ?w' ! i) = id_of (stored_games ?w ! i)"
    by (intro exI[of _ i] conjI)
  have h: "''Baz'' \<noteq> [] \<and> ''/games/foo.exe'' \<noteq> [] \<and> path_exists two_files ''/games/foo.exe''
        \<and> lock_free ?w
        \<and> (games_file ?w = Absent \<or> games_file ?w = Catalog (stored_games ?w))
        \<and> (\<forall>g\<in>set (stored_games ?w). \<not> py_eq (id_of g) (JStr ''zz''))"
    by (simp add: eval_defs two_files_def)
  note t2 = save_settings_frame[of two_files ?w "JStr ''zz''" "''Baz''" "''/games/foo.exe''"
      False ?w']
  note nf = t2[THEN conjunct2, THEN conjunct1, THEN mp, OF h]
  from d e nf show ?thesis by (intro conjI)
qed

section \<open>C8: importing a game\<close>






end
